theory Spec2Isabelle
  imports Main
begin

section \<open>Errors and the outside world\<close>

text \<open>
  The server is a Go program whose functions return \<^verbatim>\<open>error\<close> values. An error is
  modelled by where it comes from: \<open>New msg\<close> is \<^verbatim>\<open>errors.New(msg)\<close>, \<open>OSError\<close> an
  error of a file or archive operation, \<open>AWSError\<close> an error of the S3 client,
  \<open>URLError\<close> an error of \<^verbatim>\<open>url.Parse\<close>, \<open>EOF\<close> is \<^verbatim>\<open>io.EOF\<close> and \<open>Panic\<close> a run-time
  panic.
\<close>

datatype error =
    New string
  | OSError string
  | AWSError string
  | URLError string
  | EOF
  | Panic string

text \<open>
  Every operation of the operating system, of \<^verbatim>\<open>archive/zip\<close> and of the S3 client
  that can fail is an external call. The world records the calls made so far,
  in order, and holds a fault plan: \<open>faults w n\<close> is the error the \<open>n\<close>-th external
  call returns, if any; \<open>shorts w n\<close> is the number of bytes a failing transfer
  has moved before it failed. The theorems hold for every plan, so every
  scenario of failures is covered.
\<close>

record CompletedPart =
  ETag :: string
  PartNumber :: nat

datatype call =
    OsCreate string
  | FileWrite string string
  | FileSeek string
  | FileStat string
  | FileRead string nat
  | ZipCreateHeader string string
  | ZipCopy string string
  | ZipClose string
  | HeadObject string string
  | PutObject string string string string
  | CreateMultipartUpload string string string
  | UploadPart string string nat nat string
  | CompleteMultipartUpload string string nat "CompletedPart list"
  | AbortMultipartUpload string string nat
  | DeleteObject string string
  | GetObject string string

record url =
  Host :: string
  Path :: string

record world =
  trace :: "call list"
  faults :: "nat \<Rightarrow> error option"
  shorts :: "nat \<Rightarrow> nat"
  files :: "string \<Rightarrow> string option"
  objects :: "string \<times> string \<Rightarrow> string option"
  DetectContentType :: "string \<Rightarrow> string"
  url_Parse :: "string \<Rightarrow> error + url"

text \<open>
  \<open>files\<close> is the local file system (path to content), \<open>objects\<close> the remote store
  (bucket and key to content). \<open>DetectContentType\<close> and \<open>url_Parse\<close> stand for the
  library functions \<^verbatim>\<open>http.DetectContentType\<close> and \<^verbatim>\<open>url.Parse\<close>, which the
  model does not fix.
\<close>

definition invoke :: "call \<Rightarrow> world \<Rightarrow> error option \<times> world" where
  "invoke c w = (faults w (length (trace w)), w\<lparr>trace := trace w @ [c]\<rparr>)"

definition short :: "world \<Rightarrow> nat" where
  "short w = shorts w (length (trace w))"

definition os_Create :: "string \<Rightarrow> world \<Rightarrow> error option \<times> world" where
  "os_Create location w =
     (case invoke (OsCreate location) w of
        (Some err, w1) \<Rightarrow> (Some err, w1)
      | (None, w1) \<Rightarrow> (None, w1\<lparr>files := (files w1)(location := Some [])\<rparr>))"

definition file_Write :: "string \<Rightarrow> string \<Rightarrow> world \<Rightarrow> error option \<times> world" where
  "file_Write location bs w =
     (let old = (case files w location of None \<Rightarrow> [] | Some c \<Rightarrow> c) in
      case invoke (FileWrite location bs) w of
        (Some err, w1) \<Rightarrow>
          (Some err, w1\<lparr>files := (files w1)(location := Some (old @ take (short w) bs))\<rparr>)
      | (None, w1) \<Rightarrow> (None, w1\<lparr>files := (files w1)(location := Some (old @ bs))\<rparr>))"

section \<open>Export sessions\<close>

text \<open>
  The export struct holds the staging file \<open>f\<close> (an \<^verbatim>\<open>*os.File\<close>: its path, whether
  it has been closed and whether it has been rewound to offset 0), the \<^verbatim>\<open>zip.Writer\<close> \<open>w\<close> layered on
  it and the flag \<open>finished\<close> (the mutex serialises the methods and has no
  sequential content). The content of the staging file is what the writer has
  put there: the writer is modelled by the list of entries written so far, in
  order, each a header with its payload, and by whether the directory has been
  written (\<open>closed\<close>).
\<close>

definition metadataFileName :: string where
  "metadataFileName = ''metadata.json''"

definition Deflate :: nat where
  "Deflate = 8"

record FileHeader =
  Name :: string
  Method :: nat
  Comment :: string

record zip_Writer =
  entries :: "(FileHeader \<times> string) list"
  closed :: bool

record staging_File =
  path :: string
  fclosed :: bool
  rewound :: bool

record export =
  f :: staging_File
  w :: zip_Writer
  finished :: bool

text \<open>
  \<^verbatim>\<open>CreateHeader\<close> starts a new entry; \<open>zip_Copy\<close> is \<^verbatim>\<open>io.Copy\<close> (or \<^verbatim>\<open>Write\<close>) into
  the entry started last: a failing copy leaves the bytes moved before the
  failure in the entry. \<^verbatim>\<open>Close\<close> writes the directory.
\<close>

definition CreateHeader :: "FileHeader \<Rightarrow> export \<Rightarrow> world \<Rightarrow> error option \<times> export \<times> world" where
  "CreateHeader fh e s =
     (case invoke (ZipCreateHeader (Name fh) (Comment fh)) s of
        (Some err, s1) \<Rightarrow> (Some err, e, s1)
      | (None, s1) \<Rightarrow> (None, e\<lparr>w := (w e)\<lparr>entries := entries (w e) @ [(fh, [])]\<rparr>\<rparr>, s1))"

definition append_last :: "string \<Rightarrow> (FileHeader \<times> string) list \<Rightarrow> (FileHeader \<times> string) list" where
  "append_last bs es =
     (case rev es of [] \<Rightarrow> [] | (fh, old) # r \<Rightarrow> rev r @ [(fh, old @ bs)])"

definition zip_Copy :: "string \<Rightarrow> export \<Rightarrow> world \<Rightarrow> error option \<times> export \<times> world" where
  "zip_Copy bs e s =
     (case invoke (ZipCopy (path (f e)) bs) s of
        (Some err, s1) \<Rightarrow>
          (Some err, e\<lparr>w := (w e)\<lparr>entries := append_last (take (short s) bs) (entries (w e))\<rparr>\<rparr>, s1)
      | (None, s1) \<Rightarrow>
          (None, e\<lparr>w := (w e)\<lparr>entries := append_last bs (entries (w e))\<rparr>\<rparr>, s1))"

definition zip_Close :: "export \<Rightarrow> world \<Rightarrow> error option \<times> export \<times> world" where
  "zip_Close e s =
     (case invoke (ZipClose (path (f e))) s of
        (Some err, s1) \<Rightarrow> (Some err, e, s1)
      | (None, s1) \<Rightarrow> (None, e\<lparr>w := (w e)\<lparr>closed := True\<rparr>\<rparr>, s1))"

definition file_Seek0 :: "export \<Rightarrow> world \<Rightarrow> error option \<times> export \<times> world" where
  "file_Seek0 e s =
     (case invoke (FileSeek (path (f e))) s of
        (Some err, s1) \<Rightarrow> (Some err, e, s1)
      | (None, s1) \<Rightarrow> (None, e\<lparr>f := (f e)\<lparr>rewound := True\<rparr>\<rparr>, s1))"

definition file_Close :: "export \<Rightarrow> export" where
  "file_Close e = e\<lparr>f := (f e)\<lparr>fclosed := True\<rparr>\<rparr>"

text \<open>\<^verbatim>\<open>saveMetadataFile\<close>: the staged copy of the metadata.\<close>

definition saveMetadataFile :: "string \<Rightarrow> string \<Rightarrow> world \<Rightarrow> error option \<times> world" where
  "saveMetadataFile metadata deviceID s =
     (let location = ''/tmp/pottery-log-exports/metadata/'' @ deviceID @ ''.json'' in
      case os_Create location s of
        (Some err, s1) \<Rightarrow> (Some err, s1)
      | (None, s1) \<Rightarrow>
          (case file_Write location metadata s1 of
             (Some err, s2) \<Rightarrow> (Some err, s2)
           | (None, s2) \<Rightarrow> (None, s2)))"

text \<open>
  \<^verbatim>\<open>NewExport\<close>. The result of \<^verbatim>\<open>saveMetadataFile\<close> is dropped, as in the source
  (line 69 calls it as a statement).
\<close>

definition NewExport :: "string \<Rightarrow> string \<Rightarrow> world \<Rightarrow> (error + export) \<times> world" where
  "NewExport deviceID metadata s =
     (let location = ''/tmp/pottery-log-exports/'' @ deviceID @ ''.zip'';
          s1 = snd (saveMetadataFile metadata deviceID s) in
      case os_Create location s1 of
        (Some err, s2) \<Rightarrow> (Inl err, s2)
      | (None, s2) \<Rightarrow>
          (let exp = \<lparr>f = \<lparr>path = location, fclosed = False, rewound = False\<rparr>,
                      w = \<lparr>entries = [], closed = False\<rparr>,
                      finished = False\<rparr> in
           case CreateHeader \<lparr>Name = metadataFileName, Method = Deflate, Comment = []\<rparr> exp s2 of
             (Some err, exp1, s3) \<Rightarrow> (Inl err, s3)
           | (None, exp1, s3) \<Rightarrow>
               (case zip_Copy metadata exp1 s3 of
                  (Some err, exp2, s4) \<Rightarrow> (Inl err, s4)
                | (None, exp2, s4) \<Rightarrow> (Inr exp2, s4))))"

text \<open>An uploaded form file: \<^verbatim>\<open>multipart.File\<close> with its \<^verbatim>\<open>multipart.FileHeader\<close>.\<close>

record form_file =
  Filename :: string
  ContentType :: string
  content :: string

definition AddImage :: "form_file \<Rightarrow> export \<Rightarrow> world \<Rightarrow> error option \<times> export \<times> world" where
  "AddImage img e s =
     (if finished e then (Some (New ''The export has finished''), e, s)
      else
        case CreateHeader \<lparr>Name = Filename img, Method = Deflate, Comment = ContentType img\<rparr> e s of
          (Some err, e1, s1) \<Rightarrow> (Some err, e1, s1)
        | (None, e1, s1) \<Rightarrow> zip_Copy (content img) e1 s1)"

definition Finish :: "export \<Rightarrow> world \<Rightarrow> (error + staging_File) \<times> export \<times> world" where
  "Finish e s =
     (if finished e then (Inl (New ''The export has finished''), e, s)
      else
        let e0 = e\<lparr>finished := True\<rparr> in
        case zip_Close e0 s of
          (Some err, e1, s1) \<Rightarrow> (Inl err, file_Close e1, s1)
        | (None, e1, s1) \<Rightarrow>
            (case file_Seek0 e1 s1 of
               (Some err, e2, s2) \<Rightarrow> (Inl err, file_Close e2, s2)
             | (None, e2, s2) \<Rightarrow> (Inr (f e2), e2, s2)))"

text \<open>The registry of sessions: \<^verbatim>\<open>exports\<close> with \<^verbatim>\<open>Start\<close>, \<^verbatim>\<open>Get\<close> and \<^verbatim>\<open>Remove\<close>.\<close>

type_synonym exports = "string \<Rightarrow> export option"

definition NewExports :: exports where
  "NewExports = (\<lambda>_. None)"

definition Start :: "string \<Rightarrow> string \<Rightarrow> exports \<Rightarrow> world \<Rightarrow> error option \<times> exports \<times> world" where
  "Start deviceID metadata es s =
     (case NewExport deviceID metadata s of
        (Inl err, s1) \<Rightarrow> (Some err, es, s1)
      | (Inr exp, s1) \<Rightarrow> (None, es(deviceID := Some exp), s1))"

definition Get :: "string \<Rightarrow> exports \<Rightarrow> export option" where
  "Get deviceID es = es deviceID"

definition Remove :: "string \<Rightarrow> exports \<Rightarrow> exports" where
  "Remove deviceID es = es(deviceID := None)"

text \<open>A run of \<^verbatim>\<open>AddImage\<close> calls on one session, with the result of each call.\<close>

fun AddImages :: "form_file list \<Rightarrow> export \<Rightarrow> world \<Rightarrow> error option list \<times> export \<times> world" where
  "AddImages [] e s = ([], e, s)"
| "AddImages (img # imgs) e s =
     (case AddImage img e s of
        (r, e1, s1) \<Rightarrow> (case AddImages imgs e1 s1 of (rs, e2, s2) \<Rightarrow> (r # rs, e2, s2)))"

definition image_entry :: "form_file \<Rightarrow> FileHeader \<times> string" where
  "image_entry img =
     (\<lparr>Name = Filename img, Method = Deflate, Comment = ContentType img\<rparr>, content img)"

definition metadata_entry :: "string \<Rightarrow> FileHeader \<times> string" where
  "metadata_entry metadata =
     (\<lparr>Name = metadataFileName, Method = Deflate, Comment = []\<rparr>, metadata)"


section \<open>The blob store client\<close>

definition imageBucketName :: string where
  "imageBucketName = ''pottery-log''"

definition importBucketName :: string where
  "importBucketName = ''pottery-log-exports''"

text \<open>
  The S3 client \<^verbatim>\<open>svc\<close>. Each request is an external call; a request that does not
  fail acts on \<open>objects\<close> as the store does. The integrity tag of a part is
  modelled by the bytes of the part (a digest without collisions), so that a
  completed upload is the concatenation of its parts.
\<close>

record CreateMultipartUploadOutput =
  Bucket :: string
  Key :: string
  UploadId :: nat

definition svc_HeadObject :: "string \<Rightarrow> string \<Rightarrow> world \<Rightarrow> error option \<times> world" where
  "svc_HeadObject b k s =
     (case invoke (HeadObject b k) s of
        (Some err, s1) \<Rightarrow> (Some err, s1)
      | (None, s1) \<Rightarrow>
          (if objects s1 (b, k) = None then (Some (AWSError ''NotFound''), s1) else (None, s1)))"

definition svc_PutObject :: "string \<Rightarrow> string \<Rightarrow> string \<Rightarrow> string \<Rightarrow> world \<Rightarrow> error option \<times> world" where
  "svc_PutObject b k ct body s =
     (case invoke (PutObject b k ct body) s of
        (Some err, s1) \<Rightarrow> (Some err, s1)
      | (None, s1) \<Rightarrow> (None, s1\<lparr>objects := (objects s1)((b, k) := Some body)\<rparr>))"

definition svc_CreateMultipartUpload ::
    "string \<Rightarrow> string \<Rightarrow> string \<Rightarrow> world \<Rightarrow> (error + CreateMultipartUploadOutput) \<times> world" where
  "svc_CreateMultipartUpload b k ct s =
     (case invoke (CreateMultipartUpload b k ct) s of
        (Some err, s1) \<Rightarrow> (Inl err, s1)
      | (None, s1) \<Rightarrow> (Inr \<lparr>Bucket = b, Key = k, UploadId = length (trace s)\<rparr>, s1))"

definition svc_UploadPart ::
    "CreateMultipartUploadOutput \<Rightarrow> nat \<Rightarrow> string \<Rightarrow> world \<Rightarrow> (error + string) \<times> world" where
  "svc_UploadPart upl partNum body s =
     (case invoke (UploadPart (Bucket upl) (Key upl) (UploadId upl) partNum body) s of
        (Some err, s1) \<Rightarrow> (Inl err, s1)
      | (None, s1) \<Rightarrow> (Inr body, s1))"

definition svc_CompleteMultipartUpload ::
    "CreateMultipartUploadOutput \<Rightarrow> CompletedPart list \<Rightarrow> world \<Rightarrow> error option \<times> world" where
  "svc_CompleteMultipartUpload upl parts s =
     (case invoke (CompleteMultipartUpload (Bucket upl) (Key upl) (UploadId upl) parts) s of
        (Some err, s1) \<Rightarrow> (Some err, s1)
      | (None, s1) \<Rightarrow>
          (None, s1\<lparr>objects := (objects s1)((Bucket upl, Key upl) := Some (concat (map ETag parts)))\<rparr>))"

definition svc_AbortMultipartUpload :: "CreateMultipartUploadOutput \<Rightarrow> world \<Rightarrow> error option \<times> world" where
  "svc_AbortMultipartUpload upl s =
     invoke (AbortMultipartUpload (Bucket upl) (Key upl) (UploadId upl)) s"

definition svc_DeleteObject :: "string \<Rightarrow> string \<Rightarrow> world \<Rightarrow> error option \<times> world" where
  "svc_DeleteObject b k s =
     (case invoke (DeleteObject b k) s of
        (Some err, s1) \<Rightarrow> (Some err, s1)
      | (None, s1) \<Rightarrow> (None, s1\<lparr>objects := (objects s1)((b, k) := None)\<rparr>))"

text \<open>
  \<^verbatim>\<open>downloader.Download(file, GetObjectInput)\<close> into the local file; \<open>fileOk\<close> says
  whether the file handle it is given is valid.
\<close>

definition Download :: "bool \<Rightarrow> string \<Rightarrow> string \<Rightarrow> string \<Rightarrow> world \<Rightarrow> error option \<times> world" where
  "Download fileOk localFile b k s =
     (case invoke (GetObject b k) s of
        (Some err, s1) \<Rightarrow> (Some err, s1)
      | (None, s1) \<Rightarrow>
          (case objects s1 (b, k) of
             None \<Rightarrow> (Some (AWSError ''NoSuchKey''), s1)
           | Some body \<Rightarrow>
               (if fileOk then (None, s1\<lparr>files := (files s1)(localFile := Some body)\<rparr>)
                else (Some (OSError ''invalid argument''), s1))))"

text \<open>
  Readers. An \<^verbatim>\<open>*os.File\<close> opened for reading is its name, its bytes and its
  offset; it is an \<^verbatim>\<open>io.ReadSeeker\<close>. Any other \<^verbatim>\<open>io.Reader\<close> is the bytes it
  yields, followed by the end of the stream or by an error.
\<close>

record os_File =
  fname :: string
  fdata :: string
  fpos :: nat

datatype reader = ReadSeeker os_File | Reader string "error option"

definition ReadAll :: "reader \<Rightarrow> error + string" where
  "ReadAll r =
     (case r of
        ReadSeeker fr \<Rightarrow> Inr (drop (fpos fr) (fdata fr))
      | Reader bs rerr \<Rightarrow> (case rerr of Some err \<Rightarrow> Inl err | None \<Rightarrow> Inr bs))"

text \<open>
  \<^verbatim>\<open>file.Read(buf)\<close> with \<open>sz = len(buf)\<close>, on a regular file: the bytes from the
  offset on, at most \<open>sz\<close> of them, and \<^verbatim>\<open>io.EOF\<close> with no bytes at the end of
  the file. The result is the count, the bytes and the error.
\<close>

definition file_Read :: "nat \<Rightarrow> os_File \<Rightarrow> world \<Rightarrow> (nat \<times> string \<times> error option) \<times> os_File \<times> world" where
  "file_Read sz file s =
     (case invoke (FileRead (fname file) (fpos file)) s of
        (Some err, s1) \<Rightarrow> ((0, [], Some err), file, s1)
      | (None, s1) \<Rightarrow>
          (if sz = 0 then ((0, [], None), file, s1)
           else if length (fdata file) \<le> fpos file then ((0, [], Some EOF), file, s1)
           else
             let bs = take sz (drop (fpos file) (fdata file)) in
             ((length bs, bs, None), file\<lparr>fpos := fpos file + length bs\<rparr>, s1)))"

definition file_Stat :: "os_File \<Rightarrow> world \<Rightarrow> nat option \<times> world" where
  "file_Stat file s =
     (case invoke (FileStat (fname file)) s of
        (Some err, s1) \<Rightarrow> (None, s1)
      | (None, s1) \<Rightarrow> (Some (length (fdata file)), s1))"

definition objectExists :: "string \<Rightarrow> string \<Rightarrow> world \<Rightarrow> bool \<times> world" where
  "objectExists bucketName fileName s =
     (case svc_HeadObject bucketName fileName s of (err, s1) \<Rightarrow> (err = None, s1))"

definition objectUrl :: "string \<Rightarrow> string \<Rightarrow> string" where
  "objectUrl bucketName fileName = ''https://'' @ bucketName @ ''.s3.amazonaws.com/'' @ fileName"

definition HasPrefix :: "string \<Rightarrow> string \<Rightarrow> bool" where
  "HasPrefix s pre = (take (length pre) s = pre)"

text \<open>
  \<^verbatim>\<open>downloadImport\<close>. The error of \<^verbatim>\<open>os.Create\<close> is overwritten by the result of
  the download, as in the source.
\<close>

definition downloadImport :: "string \<Rightarrow> string \<Rightarrow> world \<Rightarrow> error option \<times> world" where
  "downloadImport urlString localFile s =
     (case url_Parse s urlString of
        Inl err \<Rightarrow> (Some err, s)
      | Inr s3url \<Rightarrow>
          (if Host s3url \<noteq> importBucketName @ ''.s3.amazonaws.com''
           then (Some (New ''The link must be a Pottery Log export link''), s)
           else
             let path = Path s3url in
             case os_Create localFile s of
               (cerr, s1) \<Rightarrow> Download (cerr = None) localFile importBucketName path s1))"

text \<open>
  \<^verbatim>\<open>uploadFile\<close>. The fixed request parameters (the ACL, the cache lifetime and
  the expiry time) are not part of the recorded call.
\<close>

definition uploadFile ::
    "string \<Rightarrow> reader \<Rightarrow> string \<Rightarrow> string \<Rightarrow> string \<Rightarrow> world \<Rightarrow> (error + string) \<times> world" where
  "uploadFile bucketName file fileName contentType deviceID s =
     (let fullFileName = deviceID @ ''/'' @ fileName in
      case objectExists bucketName fullFileName s of
        (True, s1) \<Rightarrow> (Inr (objectUrl bucketName fullFileName), s1)
      | (False, s1) \<Rightarrow>
          (case (case file of
                   ReadSeeker fr \<Rightarrow> Inr (drop (fpos fr) (fdata fr), contentType)
                 | Reader bs rerr \<Rightarrow>
                     (case ReadAll file of
                        Inl err \<Rightarrow> Inl err
                      | Inr data \<Rightarrow>
                          Inr (data, if \<not> HasPrefix contentType ''image/''
                                     then DetectContentType s1 data else contentType))) of
             Inl err \<Rightarrow> (Inl err, s1)
           | Inr (body, contentType1) \<Rightarrow>
               (case svc_PutObject bucketName fullFileName contentType1 body s1 of
                  (Some err, s2) \<Rightarrow> (Inl err, s2)
                | (None, s2) \<Rightarrow> (Inr (objectUrl bucketName fullFileName), s2))))"

definition MIN_MULTIPART_SIZE :: nat where
  "MIN_MULTIPART_SIZE = 1000000000"

definition PART_SIZE :: nat where
  "PART_SIZE = 500000000"

definition abortMultipartUpload :: "CreateMultipartUploadOutput \<Rightarrow> world \<Rightarrow> world" where
  "abortMultipartUpload upl s = snd (svc_AbortMultipartUpload upl s)"

text \<open>
  The read loop of \<^verbatim>\<open>uploadMultipart\<close> (lines 171 to 203), from the state it is
  entered in: the file at its offset, the number of the next part and the parts
  completed so far. It ends, since every part read moves the offset forward.
\<close>

function read_loop ::
    "CreateMultipartUploadOutput \<Rightarrow> os_File \<Rightarrow> nat \<Rightarrow> CompletedPart list \<Rightarrow> world
      \<Rightarrow> (error + CompletedPart list) \<times> world" where
  "read_loop upl file partNum completedParts s =
     (case file_Read PART_SIZE file s of
        ((n, partBytes, err), file1, s1) \<Rightarrow>
          if n = 0 \<and> err = Some EOF then (Inr completedParts, s1)
          else if err \<noteq> None \<and> err \<noteq> Some EOF then (Inl (the err), abortMultipartUpload upl s1)
          else if n = 0 then read_loop upl file1 partNum completedParts s1
          else
            (case svc_UploadPart upl partNum partBytes s1 of
               (Inl uerr, s2) \<Rightarrow> (Inl uerr, abortMultipartUpload upl s2)
             | (Inr etag, s2) \<Rightarrow>
                 read_loop upl file1 (partNum + 1)
                   (completedParts @ [\<lparr>ETag = etag, PartNumber = partNum\<rparr>]) s2))"
  by pat_completeness auto
termination
  by (relation "measure (\<lambda>(upl, file, partNum, completedParts, s). length (fdata file) - fpos file)")
     (auto simp: file_Read_def PART_SIZE_def invoke_def Let_def split: option.splits if_splits)

declare read_loop.simps [simp del]

text \<open>
  \<^verbatim>\<open>uploadMultipart\<close>. The error of \<^verbatim>\<open>file.Stat()\<close> is dropped by the source, which
  then reads the size through a nil value: a panic.
\<close>

definition uploadMultipart ::
    "string \<Rightarrow> os_File \<Rightarrow> string \<Rightarrow> string \<Rightarrow> string \<Rightarrow> world \<Rightarrow> (error + string) \<times> world" where
  "uploadMultipart bucketName file fileName contentType deviceID s =
     (case file_Stat file s of
        (None, s0) \<Rightarrow> (Inl (Panic ''invalid memory address or nil pointer dereference''), s0)
      | (Some fileSize, s0) \<Rightarrow>
          if fileSize < MIN_MULTIPART_SIZE
          then uploadFile bucketName (ReadSeeker file) fileName contentType deviceID s0
          else
            (let fullFileName = deviceID @ ''/'' @ fileName in
             (case objectExists bucketName fullFileName s0 of
                (True, s1) \<Rightarrow> (Inr (objectUrl bucketName fullFileName), s1)
              | (False, s1) \<Rightarrow>
                  (case svc_CreateMultipartUpload bucketName fullFileName contentType s1 of
                     (Inl err, s2) \<Rightarrow> (Inl err, s2)
                   | (Inr upl, s2) \<Rightarrow>
                       (case read_loop upl file 1 [] s2 of
                          (Inl err, s3) \<Rightarrow> (Inl err, s3)
                        | (Inr completedParts, s3) \<Rightarrow>
                            (case svc_CompleteMultipartUpload upl completedParts s3 of
                               (Some err, s4) \<Rightarrow> (Inl err, s4)
                             | (None, s4) \<Rightarrow> (Inr (objectUrl bucketName fullFileName), s4)))))))"

definition deleteImage :: "string \<Rightarrow> world \<Rightarrow> error option \<times> world" where
  "deleteImage fileName s = svc_DeleteObject imageBucketName fileName s"

section \<open>The import reader and the request handlers\<close>

text \<open>
  An entry of a \<^verbatim>\<open>zip.Reader\<close>: its header and what \<^verbatim>\<open>Open\<close> returns, an error or
  a reader of the payload.
\<close>

record zip_File =
  header :: FileHeader
  Open :: "error + reader"

definition uploadImportedImage :: "zip_File \<Rightarrow> string \<Rightarrow> world \<Rightarrow> (error + string) \<times> world" where
  "uploadImportedImage imageFile deviceID s =
     (case Open imageFile of
        Inl err \<Rightarrow> (Inl err, s)
      | Inr imageReader \<Rightarrow>
          uploadFile importBucketName imageReader (Name (header imageFile))
            (Comment (header imageFile)) deviceID s)"

text \<open>
  \<^verbatim>\<open>strings.Index\<close> and \<^verbatim>\<open>strings.Split\<close> of the Go library, on byte strings. (For
  an empty separator the library splits after each UTF-8 sequence, the model
  after each byte; the server only splits at a separator that is not empty.)
\<close>

fun strings_Index :: "string \<Rightarrow> string \<Rightarrow> nat option" where
  "strings_Index [] sep = (if sep = [] then Some 0 else None)"
| "strings_Index (c # cs) sep =
     (if HasPrefix (c # cs) sep then Some 0 else map_option Suc (strings_Index cs sep))"

function strings_Split :: "string \<Rightarrow> string \<Rightarrow> string list" where
  "strings_Split s sep =
     (if sep = [] then map (\<lambda>c. [c]) s
      else
        case strings_Index s sep of
          None \<Rightarrow> [s]
        | Some m \<Rightarrow> take m s # strings_Split (drop (m + length sep) s) sep)"
  by pat_completeness auto
termination
  by (relation "measure (\<lambda>(s, sep). length s)") (auto split: if_splits elim: strings_Index.elims)

declare strings_Split.simps [simp del]

text \<open>
  A handler answers either through \<^verbatim>\<open>handleErr\<close> (status 500 with the message of
  the error: \<open>Inl\<close>) or with its own response (\<open>Inr\<close>). The events sent to the
  analytics sink are not modelled.
\<close>

definition okResponse :: string where
  \<open>okResponse = ''{"status": "ok"}''\<close>

definition marker :: string where
  "marker = ''s3.amazonaws.com/''"

definition Delete :: "string \<Rightarrow> world \<Rightarrow> (error + string) \<times> world" where
  "Delete uri s =
     (if uri = [] then (Inl (New ''Missing required field uri''), s)
      else
        let parts = strings_Split uri marker in
        if length parts \<noteq> 2 then (Inl (New (''Can't parse uri '' @ uri)), s)
        else
          let fileName = parts ! 1 in
          case deleteImage fileName s of
            (Some err, s1) \<Rightarrow> (Inl err, s1)
          | (None, s1) \<Rightarrow> (Inr okResponse, s1))"

text \<open>
  \<^verbatim>\<open>Import\<close>, from the point where the archive has been opened: \<open>r\<close> is the list
  \<^verbatim>\<open>r.File\<close> of its entries (lines 235 to 277). \<open>Import_range\<close> is the loop over
  the entries; \<open>metadata\<close> is \<open>None\<close> for the nil slice.
\<close>

fun Import_range ::
    "zip_File list \<Rightarrow> string \<Rightarrow> (string \<Rightarrow> string option) \<Rightarrow> string option \<Rightarrow> world
      \<Rightarrow> (error + (string \<Rightarrow> string option) \<times> string option) \<times> world" where
  "Import_range [] deviceID imageMap metadata s = (Inr (imageMap, metadata), s)"
| "Import_range (zf # rest) deviceID imageMap metadata s =
     (if Name (header zf) = metadataFileName then
        (case Open zf of
           Inl err \<Rightarrow> (Inl err, s)
         | Inr metadataFile \<Rightarrow>
             (case ReadAll metadataFile of
                Inl err \<Rightarrow> (Inl err, s)
              | Inr bs \<Rightarrow> Import_range rest deviceID imageMap (Some bs) s))
      else
        (case uploadImportedImage zf deviceID s of
           (Inl err, s1) \<Rightarrow> (Inl err, s1)
         | (Inr uri, s1) \<Rightarrow>
             Import_range rest deviceID (imageMap(Name (header zf) := Some uri)) metadata s1))"

record import_response =
  Metadata :: string
  ImageMap :: "string \<Rightarrow> string option"

definition Import :: "zip_File list \<Rightarrow> string \<Rightarrow> world \<Rightarrow> (error + import_response) \<times> world" where
  "Import r deviceID s =
     (case Import_range r deviceID (\<lambda>_. None) None s of
        (Inl err, s1) \<Rightarrow> (Inl err, s1)
      | (Inr (imageMap, metadata), s1) \<Rightarrow>
          (case metadata of
             None \<Rightarrow> (Inl (New (''No '' @ metadataFileName @ '' found in the zip file'')), s1)
           | Some md \<Rightarrow> (Inr \<lparr>Metadata = md, ImageMap = imageMap\<rparr>, s1)))"

section \<open>The errors of the specification\<close>

text \<open>
  The specification names kinds of errors; the source has the values below for
  them.
\<close>

definition StateError :: error where
  "StateError = New ''The export has finished''"

definition ValidationError_no_metadata :: error where
  "ValidationError_no_metadata = New ''No metadata.json found in the zip file''"

definition ValidationError_host :: error where
  "ValidationError_host = New ''The link must be a Pottery Log export link''"

section \<open>Concrete inputs\<close>

text \<open>A world with empty stores in which no external call fails.\<close>

definition world0 :: world where
  "world0 = \<lparr>trace = [], faults = (\<lambda>_. None), shorts = (\<lambda>_. 0), files = (\<lambda>_. None),
     objects = (\<lambda>_. None), DetectContentType = (\<lambda>_. ''application/octet-stream''),
     url_Parse = (\<lambda>_. Inl (URLError ''parse''))\<rparr>"

definition img_a :: form_file where
  "img_a = \<lparr>Filename = ''a.png'', ContentType = ''image/png'', content = ''AAAA''\<rparr>"

definition img_b :: form_file where
  "img_b = \<lparr>Filename = ''b.png'', ContentType = ''image/png'', content = ''BB''\<rparr>"

text \<open>
  A run of calls on one session, in any order, with the error of each call
  (\<open>None\<close> for a call that succeeds).
\<close>

datatype session_call = CallAddImage form_file | CallFinish

fun session_calls :: "session_call list \<Rightarrow> export \<Rightarrow> world \<Rightarrow> error option list \<times> export \<times> world" where
  "session_calls [] e s = ([], e, s)"
| "session_calls (CallAddImage img # cs) e s =
     (case AddImage img e s of
        (r, e1, s1) \<Rightarrow> (case session_calls cs e1 s1 of (rs, e2, s2) \<Rightarrow> (r # rs, e2, s2)))"
| "session_calls (CallFinish # cs) e s =
     (case Finish e s of
        (r, e1, s1) \<Rightarrow>
          (case session_calls cs e1 s1 of
             (rs, e2, s2) \<Rightarrow> ((case r of Inl err \<Rightarrow> Some err | Inr file \<Rightarrow> None) # rs, e2, s2)))"

text \<open>The session that \<open>Start\<close> leaves for device \<open>dev1\<close> with metadata \<open>{}\<close>.\<close>

definition export1 :: export where
  "export1 = \<lparr>f = \<lparr>path = ''/tmp/pottery-log-exports/dev1.zip'', fclosed = False, rewound = False\<rparr>,
              w = \<lparr>entries = [metadata_entry ''{}''], closed = False\<rparr>,
              finished = False\<rparr>"

text \<open>
  Worlds with one failing call: the sixth call (the first after the five calls
  of \<open>Start\<close>) finds the disk full; the first call finds the directory of the
  staged copies not writable.
\<close>

definition world_full :: world where
  "world_full =
     world0\<lparr>faults := (\<lambda>n. if n = 5 then Some (OSError ''no space left on device'') else None)\<rparr>"

definition world_ro :: world where
  "world_ro =
     world0\<lparr>faults := (\<lambda>n. if n = 0 then Some (OSError ''permission denied'') else None)\<rparr>"

text \<open>
  Requests that write bytes to the store, and the requests of a multipart
  transfer.
\<close>

fun is_write :: "call \<Rightarrow> bool" where
  "is_write (PutObject b k ct body) = True"
| "is_write (UploadPart b k uid pn body) = True"
| "is_write (CompleteMultipartUpload b k uid parts) = True"
| "is_write c = False"

fun is_multipart :: "call \<Rightarrow> bool" where
  "is_multipart (CreateMultipartUpload b k ct) = True"
| "is_multipart (UploadPart b k uid pn body) = True"
| "is_multipart (CompleteMultipartUpload b k uid parts) = True"
| "is_multipart (AbortMultipartUpload b k uid) = True"
| "is_multipart c = False"

definition remote_writes :: "world \<Rightarrow> call list" where
  "remote_writes s = filter is_write (trace s)"

fun is_GetObject :: "call \<Rightarrow> bool" where
  "is_GetObject (GetObject b k) = True"
| "is_GetObject c = False"

text \<open>
  A store that already holds the image of device \<open>dev1\<close>; a small file and a
  plain stream; a world whose \<^verbatim>\<open>url.Parse\<close> knows two links.
\<close>

definition world_has :: world where
  "world_has = world0\<lparr>objects := (\<lambda>bk. if bk = (''pottery-log'', ''dev1/a.png'') then Some ''AAAA'' else None)\<rparr>"

definition file_a :: os_File where
  "file_a = \<lparr>fname = ''a.png'', fdata = ''AAAA'', fpos = 0\<rparr>"

definition stream_b :: reader where
  "stream_b = Reader ''BBBB'' None"

definition known_links :: "string \<Rightarrow> error + url" where
  "known_links u =
     (if u = ''https://pottery-log-exports.s3.amazonaws.com/dev1/export.zip''
      then Inr \<lparr>Host = ''pottery-log-exports.s3.amazonaws.com'', Path = ''/dev1/export.zip''\<rparr>
      else if u = ''https://evil.example.com/export.zip''
      then Inr \<lparr>Host = ''evil.example.com'', Path = ''/export.zip''\<rparr>
      else Inl (URLError ''parse''))"

definition world_links :: world where
  "world_links = world0\<lparr>url_Parse := known_links\<rparr>"

text \<open>
  The parts a run of calls submits (number and bytes of each \<^verbatim>\<open>UploadPart\<close>
  request, in order), the kinds of calls of a multipart transfer, and the
  rounded-up quotient.
\<close>

fun part_of :: "call \<Rightarrow> (nat \<times> string) option" where
  "part_of (UploadPart b k uid pn body) = Some (pn, body)"
| "part_of c = None"

definition submitted :: "call list \<Rightarrow> (nat \<times> string) list" where
  "submitted tr = List.map_filter part_of tr"

fun is_FileRead :: "call \<Rightarrow> bool" where
  "is_FileRead (FileRead nm off) = True"
| "is_FileRead c = False"

fun is_UploadPart :: "call \<Rightarrow> bool" where
  "is_UploadPart (UploadPart b k uid pn body) = True"
| "is_UploadPart c = False"

fun is_Complete :: "call \<Rightarrow> bool" where
  "is_Complete (CompleteMultipartUpload b k uid parts) = True"
| "is_Complete c = False"

definition ceil_div :: "nat \<Rightarrow> nat \<Rightarrow> nat" where
  "ceil_div a b = (a + b - 1) div b"

text \<open>
  The calls made between two worlds, and the parts submitted between them.
\<close>

definition new_calls :: "world \<Rightarrow> world \<Rightarrow> call list" where
  "new_calls s s' = drop (length (trace s)) (trace s')"

definition parts_submitted :: "world \<Rightarrow> world \<Rightarrow> (nat \<times> string) list" where
  "parts_submitted s s' = submitted (drop (length (trace s)) (trace s'))"

definition quiet :: "call list \<Rightarrow> bool" where
  "quiet cs = list_all (\<lambda>c. \<not> is_FileRead c \<and> \<not> is_UploadPart c) cs"

text \<open>
  One round of the read loop: the bytes it reads at the offset of the file
  (\<open>chunk\<close>), the file after them (\<open>advance\<close>), and the two requests it can
  make. \<open>loop_calls\<close> are the calls of a whole run of the loop, \<open>numbered p\<close> says
  that parts carry the numbers \<open>p\<close>, \<open>p + 1\<close>, and so on, and \<open>completed\<close> is the
  list of part numbers and tags sent with the final request.
\<close>

definition chunk :: "os_File \<Rightarrow> string" where
  "chunk fl = take PART_SIZE (drop (fpos fl) (fdata fl))"

definition advance :: "os_File \<Rightarrow> os_File" where
  "advance fl = fl\<lparr>fpos := fpos fl + length (chunk fl)\<rparr>"

definition abort_call :: "CreateMultipartUploadOutput \<Rightarrow> call" where
  "abort_call upl = AbortMultipartUpload (Bucket upl) (Key upl) (UploadId upl)"

definition part_call :: "CreateMultipartUploadOutput \<Rightarrow> nat \<Rightarrow> string \<Rightarrow> call" where
  "part_call upl pn body = UploadPart (Bucket upl) (Key upl) (UploadId upl) pn body"

definition loop_calls :: "CreateMultipartUploadOutput \<Rightarrow> os_File \<Rightarrow> nat \<Rightarrow> CompletedPart list \<Rightarrow> world \<Rightarrow> call list" where
  "loop_calls upl fl p cps s = drop (length (trace s)) (trace (snd (read_loop upl fl p cps s)))"

fun numbered :: "nat \<Rightarrow> (nat \<times> string) list \<Rightarrow> bool" where
  "numbered p [] = True"
| "numbered p (x # xs) = (fst x = p \<and> numbered (Suc p) xs)"

definition completed :: "(nat \<times> string) list \<Rightarrow> CompletedPart list" where
  "completed parts = map (\<lambda>part. \<lparr>ETag = snd part, PartNumber = fst part\<rparr>) parts"

text \<open>
  A file of one gigabyte, and a world in which the fifth call (the first part
  of that file) and the sixth (the abort) fail.
\<close>

definition big_file :: os_File where
  "big_file = \<lparr>fname = ''export.zip'', fdata = replicate 1000000000 (CHR ''z''), fpos = 0\<rparr>"

definition world_part_fails :: world where
  "world_part_fails =
     world0\<lparr>faults := (\<lambda>n. if n = 4 then Some (AWSError ''RequestTimeout'')
                          else if n = 5 then Some (AWSError ''InternalError'') else None)\<rparr>"

definition big_upl :: CreateMultipartUploadOutput where
  "big_upl = \<lparr>Bucket = ''pottery-log-exports'', Key = ''dev1/export.zip'', UploadId = 2\<rparr>"

definition big_prelude :: "call list" where
  "big_prelude = [FileStat ''export.zip'', HeadObject ''pottery-log-exports'' ''dev1/export.zip'',
     CreateMultipartUpload ''pottery-log-exports'' ''dev1/export.zip'' ''application/zip'']"

text \<open>
  Where a separator occurs in a string: \<open>occurs_at sep s i\<close> says that \<open>sep\<close>
  stands in \<open>s\<close> at offset \<open>i\<close>, and \<open>occurrences\<close> lists these offsets (for a
  separator that is not empty).
\<close>

definition occurs_at :: "string \<Rightarrow> string \<Rightarrow> nat \<Rightarrow> bool" where
  "occurs_at sep s i = (take (length sep) (drop i s) = sep)"

definition occurrences :: "string \<Rightarrow> string \<Rightarrow> nat list" where
  "occurrences sep s = filter (occurs_at sep s) [0 ..< length s]"

text \<open>
  An archive with two images and no metadata entry; the address of an object
  in the export bucket.
\<close>

definition zip_a :: zip_File where
  "zip_a = \<lparr>header = \<lparr>Name = ''a.png'', Method = Deflate, Comment = ''image/png''\<rparr>,
            Open = Inr (Reader ''AAAA'' None)\<rparr>"

definition zip_b :: zip_File where
  "zip_b = \<lparr>header = \<lparr>Name = ''b.png'', Method = Deflate, Comment = ''image/png''\<rparr>,
            Open = Inr (Reader ''BB'' None)\<rparr>"

definition export_uri :: string where
  "export_uri = ''https://pottery-log-exports.s3.amazonaws.com/dev1/export.zip''"

section \<open>Export sessions: what the archive holds\<close>

lemmas export_defs = Start_def Get_def NewExports_def NewExport_def saveMetadataFile_def
  os_Create_def file_Write_def invoke_def short_def CreateHeader_def zip_Copy_def zip_Close_def
  file_Seek0_def file_Close_def AddImage_def Finish_def append_last_def metadata_entry_def
  image_entry_def metadataFileName_def Deflate_def Let_def

lemma append_last_snoc: "append_last bs (es @ [(fh, old)]) = es @ [(fh, old @ bs)]"
  by (simp add: append_last_def)

lemma NewExport_Inr:
  assumes "NewExport deviceID metadata s = (Inr e, s')"
  shows "entries (w e) = [metadata_entry metadata] \<and> \<not> finished e \<and> \<not> closed (w e)"
  using assms
  by (auto simp: NewExport_def CreateHeader_def zip_Copy_def metadata_entry_def append_last_def
      Let_def split: prod.splits option.splits)

lemma AddImage_None:
  assumes "AddImage img e s = (None, e', s')"
  shows "entries (w e') = entries (w e) @ [image_entry img] \<and> finished e' = finished e
         \<and> closed (w e') = closed (w e) \<and> f e' = f e"
  using assms
  by (auto simp: AddImage_def CreateHeader_def zip_Copy_def image_entry_def append_last_snoc
      split: prod.splits option.splits if_splits)

lemma AddImages_None:
  assumes "AddImages imgs e s = (rs, e', s')" and "list_all (\<lambda>r. r = None) rs"
  shows "entries (w e') = entries (w e) @ map image_entry imgs \<and> finished e' = finished e
         \<and> closed (w e') = closed (w e) \<and> f e' = f e"
  using assms
proof (induction imgs arbitrary: e s rs e' s')
  case Nil
  then show ?case by simp
next
  case (Cons img imgs)
  obtain r e1 s1 where a: "AddImage img e s = (r, e1, s1)"
    by (cases "AddImage img e s") auto
  obtain rs1 e2 s2 where b: "AddImages imgs e1 s1 = (rs1, e2, s2)"
    by (cases "AddImages imgs e1 s1") auto
  from Cons.prems a b have eq: "rs = r # rs1" "e' = e2" by auto
  with Cons.prems have r: "r = None" and rs1: "list_all (\<lambda>r. r = None) rs1" by auto
  from AddImage_None[OF a[unfolded r]] Cons.IH[OF b rs1] eq show ?case by simp
qed

lemma Finish_Inr:
  assumes "Finish e s = (Inr file, e', s')"
  shows "entries (w e') = entries (w e) \<and> closed (w e') \<and> finished e' \<and> file = f e'
         \<and> rewound file \<and> fclosed file = fclosed (f e) \<and> path file = path (f e)"
  using assms
  by (auto simp: Finish_def zip_Close_def file_Seek0_def Let_def invoke_def
      split: prod.splits option.splits if_splits)

text \<open>
  Claim C1. A session is started for a device with some metadata, any number
  of images is added, each call with success, and the session is finished with
  success. Then the archive written to the staging file holds exactly the entry
  named \<open>metadata.json\<close> with the metadata given to \<open>Start\<close> as its bytes,
  followed by one entry for each image, in the order of the calls, named as the
  image and holding exactly its bytes; its directory has been written, and the
  file returned is the staging file, rewound. With no image at all the archive
  holds the metadata entry alone.
\<close>

theorem export_archive_exact:
  assumes "Start deviceID metadata es s0 = (None, es1, s1)"
      and "Get deviceID es1 = Some e0"
      and "AddImages imgs e0 s1 = (rs, e1, s2)"
      and "list_all (\<lambda>r. r = None) rs"
      and "Finish e1 s2 = (Inr file, e2, s3)"
  shows "entries (w e2) = metadata_entry metadata # map image_entry imgs
         \<and> length (entries (w e2)) = Suc (length imgs)
         \<and> closed (w e2) \<and> file = f e2 \<and> rewound file"
proof -
  from assms(1,2) have "NewExport deviceID metadata s0 = (Inr e0, s1)"
    by (auto simp: Start_def Get_def split: prod.splits sum.splits)
  from NewExport_Inr[OF this] AddImages_None[OF assms(3,4)] Finish_Inr[OF assms(5)]
  show ?thesis by auto
qed

theorem export_archive_exact_witness:
  "\<exists>es1 s1 e0 rs e1 s2 file e2 s3.
     Start ''dev1'' ''{}'' NewExports world0 = (None, es1, s1) \<and>
     Get ''dev1'' es1 = Some e0 \<and>
     AddImages [img_a, img_b] e0 s1 = (rs, e1, s2) \<and>
     list_all (\<lambda>r. r = None) rs \<and>
     Finish e1 s2 = (Inr file, e2, s3) \<and>
     map (\<lambda>(h, bs). (Name h, bs)) (entries (w e2)) =
       [(''metadata.json'', ''{}''), (''a.png'', ''AAAA''), (''b.png'', ''BB'')]"
proof -
  obtain r es1 s1 where a: "Start ''dev1'' ''{}'' NewExports world0 = (r, es1, s1)"
    by (cases "Start ''dev1'' ''{}'' NewExports world0") auto
  have r: "r = None"
    using a by (auto simp: export_defs world0_def)
  obtain e0 where g: "Get ''dev1'' es1 = Some e0"
    using a r by (auto simp: Start_def Get_def split: prod.splits sum.splits)
  have fin0: "\<not> finished e0"
    using a r g by (auto simp: Start_def Get_def dest: NewExport_Inr split: prod.splits sum.splits)
  have fl: "faults s1 = (\<lambda>_. None)"
    using a by (auto simp: export_defs world0_def)
  obtain rs e1 s2 where b: "AddImages [img_a, img_b] e0 s1 = (rs, e1, s2)"
    by (cases "AddImages [img_a, img_b] e0 s1") auto
  have rs: "list_all (\<lambda>r. r = None) rs" and fl2: "faults s2 = (\<lambda>_. None)"
    and fin1: "\<not> finished e1"
    using b fin0 fl by (auto simp: export_defs split: prod.splits)
  obtain res e2 s3 where c: "Finish e1 s2 = (res, e2, s3)"
    by (cases "Finish e1 s2") auto
  have "res = Inr (f e2)"
    using c fin1 fl2 by (auto simp: export_defs)
  with c have c': "Finish e1 s2 = (Inr (f e2), e2, s3)" by simp
  from export_archive_exact[OF a[unfolded r] g b rs c']
  have "entries (w e2) = [metadata_entry ''{}'', image_entry img_a, image_entry img_b]" by simp
  then have m: "map (\<lambda>(h, bs). (Name h, bs)) (entries (w e2)) =
       [(''metadata.json'', ''{}''), (''a.png'', ''AAAA''), (''b.png'', ''BB'')]"
    by (simp add: metadata_entry_def image_entry_def img_a_def img_b_def metadataFileName_def)
  show ?thesis
    by (intro exI conjI, rule a[unfolded r], rule g, rule b, rule rs, rule c', rule m)
qed

section \<open>Export sessions: finishing\<close>

lemma finished_stays:
  assumes "finished e"
  shows "session_calls cs e s = (replicate (length cs) (Some StateError), e, s)"
proof (induction cs)
  case Nil
  show ?case by simp
next
  case (Cons c cs)
  with assms show ?case
    by (cases c) (simp_all add: AddImage_def Finish_def StateError_def)
qed

text \<open>
  Claim C2, as stated, fails: the first \<open>Finish\<close> call of a session need not
  succeed. On the session that \<open>Start\<close> has just made, in a world where writing
  the directory of the archive finds the disk full, \<open>Finish\<close> returns that error.
\<close>

theorem Finish_first_call_can_fail:
  "fst (NewExport ''dev1'' ''{}'' world_full) = Inr export1 \<and> \<not> finished export1 \<and>
   fst (Finish export1 (snd (NewExport ''dev1'' ''{}'' world_full))) =
     Inl (OSError ''no space left on device'')"
  by (simp add: export_defs world_full_def world0_def export1_def)

text \<open>
  Claim C2, amended. The first \<open>Finish\<close> call on a session flips it to finished
  and leaves the entries as they are. It returns the error of writing the
  directory if that fails, else the error of rewinding the file if that fails,
  and else the staging file, rewound, with the directory written. After it,
  whatever it returned, every call of \<open>Finish\<close> and of \<open>AddImage\<close> on the session,
  in any number and order and in any world, returns the error
  \<open>The export has finished\<close> and changes neither the session (so the archive is
  not modified) nor the world.
\<close>

theorem Finish_once:
  assumes "\<not> finished e" and "Finish e s = (r, e1, s1)"
  shows "finished e1 \<and> entries (w e1) = entries (w e) \<and>
         (case faults s (length (trace s)) of
            Some err \<Rightarrow> r = Inl err
          | None \<Rightarrow>
              (case faults s (Suc (length (trace s))) of
                 Some err \<Rightarrow> r = Inl err
               | None \<Rightarrow> r = Inr (f e1) \<and> rewound (f e1) \<and> closed (w e1))) \<and>
         (\<forall>cs s'. session_calls cs e1 s' = (replicate (length cs) (Some StateError), e1, s'))"
proof -
  from assms have fin: "finished e1"
    by (auto simp: Finish_def zip_Close_def file_Seek0_def file_Close_def invoke_def Let_def
        split: option.splits)
  from assms have "entries (w e1) = entries (w e)"
    by (auto simp: Finish_def zip_Close_def file_Seek0_def file_Close_def invoke_def Let_def
        split: option.splits)
  moreover from assms have "(case faults s (length (trace s)) of
            Some err \<Rightarrow> r = Inl err
          | None \<Rightarrow>
              (case faults s (Suc (length (trace s))) of
                 Some err \<Rightarrow> r = Inl err
               | None \<Rightarrow> r = Inr (f e1) \<and> rewound (f e1) \<and> closed (w e1)))"
    by (auto simp: Finish_def zip_Close_def file_Seek0_def file_Close_def invoke_def Let_def
        split: option.splits)
  ultimately show ?thesis using fin finished_stays[OF fin] by simp
qed

theorem Finish_once_witness:
  "\<not> finished export1 \<and>
   fst (Finish export1 world0) = Inr (f (fst (snd (Finish export1 world0)))) \<and>
   finished (fst (snd (Finish export1 world0))) \<and>
   session_calls [CallFinish, CallAddImage img_a, CallFinish]
       (fst (snd (Finish export1 world0))) world0 =
     ([Some StateError, Some StateError, Some StateError], fst (snd (Finish export1 world0)), world0)"
proof -
  have h: "\<not> finished export1" by (simp add: export1_def)
  obtain r e1 s1 where a: "Finish export1 world0 = (r, e1, s1)"
    by (cases "Finish export1 world0") auto
  have n: "faults world0 (length (trace world0)) = None"
    "faults world0 (Suc (length (trace world0))) = None"
    by (simp_all add: world0_def)
  from Finish_once[OF h a] n
  have "finished e1 \<and> r = Inr (f e1) \<and>
        session_calls [CallFinish, CallAddImage img_a, CallFinish] e1 world0 =
          (replicate (length [CallFinish, CallAddImage img_a, CallFinish]) (Some StateError),
           e1, world0)"
    by simp
  with h a show ?thesis by simp
qed

section \<open>Export sessions: the staged copy of the metadata\<close>

text \<open>
  Claim C7 does not hold of the code. \<open>NewExport\<close> calls \<open>saveMetadataFile\<close> and
  drops its result: in a world where the staged copy cannot be created,
  \<open>saveMetadataFile\<close> returns the error, and \<open>Start\<close> still reports success, with
  no staged copy on the disk.
\<close>

theorem Start_drops_staged_copy_error:
  "fst (saveMetadataFile ''{}'' ''dev1'' world_ro) = Some (OSError ''permission denied'') \<and>
   fst (Start ''dev1'' ''{}'' NewExports world_ro) = None \<and>
   files (snd (snd (Start ''dev1'' ''{}'' NewExports world_ro)))
     ''/tmp/pottery-log-exports/metadata/dev1.json'' = None"
  by (simp add: export_defs world_ro_def world0_def)

section \<open>Single uploads\<close>

lemmas s3_defs = uploadFile_def objectExists_def svc_HeadObject_def svc_PutObject_def invoke_def
  objectUrl_def ReadAll_def HasPrefix_def remote_writes_def Let_def

lemma uploadFile_exists:
  assumes "objectExists bucketName (deviceID @ ''/'' @ fileName) s = (True, s1)"
  shows "uploadFile bucketName file fileName contentType deviceID s =
           (Inr (objectUrl bucketName (deviceID @ ''/'' @ fileName)), s1)
         \<and> trace s1 = trace s @ [HeadObject bucketName (deviceID @ ''/'' @ fileName)]
         \<and> objects s1 = objects s \<and> remote_writes s1 = remote_writes s"
  using assms
  by (auto simp: uploadFile_def objectExists_def svc_HeadObject_def invoke_def remote_writes_def Let_def
      split: option.splits if_splits)

lemma uploadFile_fresh:
  assumes "\<forall>n. faults s n = None" and "ReadAll src = Inr data"
      and "uploadFile bucketName src fileName contentType deviceID s = (r, s1)"
  shows "r = Inr (objectUrl bucketName (deviceID @ ''/'' @ fileName))
         \<and> faults s1 = faults s
         \<and> objects s1 (bucketName, deviceID @ ''/'' @ fileName) \<noteq> None
         \<and> length (remote_writes s1) =
             length (remote_writes s) + (if objects s (bucketName, deviceID @ ''/'' @ fileName) = None then 1 else 0)"
  using assms
  by (cases src)
     (auto simp: s3_defs split: option.splits if_splits prod.splits sum.splits)

lemma uploadFile_twice:
  assumes "\<forall>n. faults s n = None" and "ReadAll src = Inr data" and "ReadAll src2 = Inr data2"
      and "uploadFile bucketName src fileName contentType deviceID s = (r1, s1)"
      and "uploadFile bucketName src2 fileName contentType2 deviceID s1 = (r2, s2)"
  shows "r1 = Inr (objectUrl bucketName (deviceID @ ''/'' @ fileName)) \<and> r2 = r1 \<and>
      length (remote_writes s2) =
        length (remote_writes s) +
          (if objects s (bucketName, deviceID @ ''/'' @ fileName) = None then 1 else 0)"
proof -
  note 1 = uploadFile_fresh[OF assms(1,2,4)]
  with assms(1) have "\<forall>n. faults s1 n = None" by simp
  note 2 = uploadFile_fresh[OF this assms(3,5)]
  from 1 2 show ?thesis by simp
qed

text \<open>
  Claim C3, as stated, fails: two calls with the same bucket, file name and
  device need not make exactly one remote write. When the store already holds
  the object before the first call, both calls return the address and no write
  is made at all.
\<close>

theorem uploadFile_idempotent_counterexample:
  "fst (uploadFile ''pottery-log'' (ReadSeeker file_a) ''a.png'' ''image/png'' ''dev1'' world_has)
     = Inr ''https://pottery-log.s3.amazonaws.com/dev1/a.png'' \<and>
   fst (uploadFile ''pottery-log'' (ReadSeeker file_a) ''a.png'' ''image/png'' ''dev1''
         (snd (uploadFile ''pottery-log'' (ReadSeeker file_a) ''a.png'' ''image/png'' ''dev1'' world_has)))
     = Inr ''https://pottery-log.s3.amazonaws.com/dev1/a.png'' \<and>
   remote_writes (snd (uploadFile ''pottery-log'' (ReadSeeker file_a) ''a.png'' ''image/png'' ''dev1''
         (snd (uploadFile ''pottery-log'' (ReadSeeker file_a) ''a.png'' ''image/png'' ''dev1'' world_has)))) = []"
  by (simp add: s3_defs world_has_def world0_def file_a_def)

text \<open>
  Claim C3, amended. When the existence probe finds an object at the key
  \<open>deviceID/fileName\<close>, \<open>uploadFile\<close> returns the canonical address, makes no
  remote write and leaves the store as it is. Hence, of two calls in a row with
  the same bucket, file name and device (any payloads that can be read, any
  content types) in a world where no call fails, both return the same canonical
  address, and together they make exactly one remote write when the store held
  no object at the key before the first call, and none when it held one.
\<close>

theorem uploadFile_idempotent:
  "(objectExists bucketName (deviceID @ ''/'' @ fileName) s = (True, s0) \<longrightarrow>
      uploadFile bucketName src fileName contentType deviceID s =
        (Inr (objectUrl bucketName (deviceID @ ''/'' @ fileName)), s0)
      \<and> remote_writes s0 = remote_writes s \<and> objects s0 = objects s) \<and>
   ((\<forall>n. faults s n = None) \<and> ReadAll src = Inr data \<and> ReadAll src2 = Inr data2 \<and>
    uploadFile bucketName src fileName contentType deviceID s = (r1, s1) \<and>
    uploadFile bucketName src2 fileName contentType2 deviceID s1 = (r2, s2) \<longrightarrow>
      r1 = Inr (objectUrl bucketName (deviceID @ ''/'' @ fileName)) \<and> r2 = r1 \<and>
      length (remote_writes s2) =
        length (remote_writes s) +
          (if objects s (bucketName, deviceID @ ''/'' @ fileName) = None then 1 else 0))"
  using uploadFile_exists[of bucketName deviceID fileName s s0 src contentType]
    uploadFile_twice[of s src data src2 data2 bucketName fileName contentType deviceID r1 s1
      contentType2 r2 s2]
  by blast

theorem uploadFile_idempotent_witness:
  "fst (objectExists ''pottery-log'' (''dev1'' @ ''/'' @ ''a.png'') world_has) \<and>
   fst (uploadFile ''pottery-log'' stream_b ''a.png'' ''image/png'' ''dev1'' world_has)
     = Inr ''https://pottery-log.s3.amazonaws.com/dev1/a.png'' \<and>
   remote_writes (snd (uploadFile ''pottery-log'' stream_b ''a.png'' ''image/png'' ''dev1'' world_has)) = [] \<and>
   faults world0 = (\<lambda>n. None) \<and> ReadAll (ReadSeeker file_a) = Inr ''AAAA'' \<and> ReadAll stream_b = Inr ''BBBB'' \<and>
   fst (uploadFile ''pottery-log'' (ReadSeeker file_a) ''a.png'' ''image/png'' ''dev1'' world0)
     = Inr ''https://pottery-log.s3.amazonaws.com/dev1/a.png'' \<and>
   fst (uploadFile ''pottery-log'' stream_b ''a.png'' ''text/plain'' ''dev1''
         (snd (uploadFile ''pottery-log'' (ReadSeeker file_a) ''a.png'' ''image/png'' ''dev1'' world0)))
     = Inr ''https://pottery-log.s3.amazonaws.com/dev1/a.png'' \<and>
   length (remote_writes (snd (uploadFile ''pottery-log'' stream_b ''a.png'' ''text/plain'' ''dev1''
         (snd (uploadFile ''pottery-log'' (ReadSeeker file_a) ''a.png'' ''image/png'' ''dev1'' world0))))) = 1"
proof -
  obtain s0 where e: "objectExists ''pottery-log'' (''dev1'' @ ''/'' @ ''a.png'') world_has = (True, s0)"
    by (simp add: s3_defs world_has_def world0_def)
  obtain r1 s1 where u1: "uploadFile ''pottery-log'' (ReadSeeker file_a) ''a.png'' ''image/png'' ''dev1'' world0 = (r1, s1)"
    by (cases "uploadFile ''pottery-log'' (ReadSeeker file_a) ''a.png'' ''image/png'' ''dev1'' world0") auto
  obtain r2 s2 where u2: "uploadFile ''pottery-log'' stream_b ''a.png'' ''text/plain'' ''dev1'' s1 = (r2, s2)"
    by (cases "uploadFile ''pottery-log'' stream_b ''a.png'' ''text/plain'' ''dev1'' s1") auto
  have nf: "\<forall>n. faults world0 n = None" by (simp add: world0_def)
  have ra: "ReadAll (ReadSeeker file_a) = Inr ''AAAA''" by (simp add: ReadAll_def file_a_def)
  have rb: "ReadAll stream_b = Inr ''BBBB''" by (simp add: ReadAll_def stream_b_def)
  have rw0: "remote_writes world0 = []" "objects world0 (''pottery-log'', ''dev1/a.png'') = None"
    "remote_writes world_has = []"
    by (simp_all add: remote_writes_def world0_def world_has_def)
  note A = uploadFile_idempotent[where bucketName = "''pottery-log''" and deviceID = "''dev1''"
      and fileName = "''a.png''" and s = world_has and ?s0.0 = s0 and src = stream_b
      and contentType = "''image/png''"]
  note B = uploadFile_idempotent[where bucketName = "''pottery-log''" and deviceID = "''dev1''"
      and fileName = "''a.png''" and s = world0 and src = "ReadSeeker file_a" and data = "''AAAA''"
      and ?src2.0 = stream_b and ?data2.0 = "''BBBB''" and contentType = "''image/png''"
      and ?contentType2.0 = "''text/plain''" and ?r1.0 = r1 and ?s1.0 = s1 and ?r2.0 = r2 and ?s2.0 = s2]
  note A1 = A[THEN conjunct1, THEN mp, OF e]
  note B1 = B[THEN conjunct2, THEN mp, OF conjI[OF nf conjI[OF ra conjI[OF rb conjI[OF u1 u2]]]]]
  have a: "fst (uploadFile ''pottery-log'' stream_b ''a.png'' ''image/png'' ''dev1'' world_has)
     = Inr ''https://pottery-log.s3.amazonaws.com/dev1/a.png'' \<and>
   remote_writes (snd (uploadFile ''pottery-log'' stream_b ''a.png'' ''image/png'' ''dev1'' world_has)) = []"
    using A1 rw0 by (simp add: objectUrl_def)
  have b: "r1 = Inr ''https://pottery-log.s3.amazonaws.com/dev1/a.png'' \<and> r2 = r1 \<and> length (remote_writes s2) = 1"
    using B1 rw0 by (simp add: objectUrl_def)
  have c: "fst (objectExists ''pottery-log'' (''dev1'' @ ''/'' @ ''a.png'') world_has)"
    using e by simp
  have d: "faults world0 = (\<lambda>n. None)" by (simp add: world0_def)
  from a b c d ra rb show ?thesis unfolding u1 fst_conv snd_conv u2 by simp
qed


section \<open>Small files go to the single upload\<close>

lemma uploadFile_no_multipart:
  "filter is_multipart (trace (snd (uploadFile bucketName src fileName contentType deviceID s)))
     = filter is_multipart (trace s)"
  by (cases src)
     (auto simp: s3_defs split: option.splits if_splits prod.splits sum.splits)

text \<open>
  Claim C8. For a file whose size (as \<^verbatim>\<open>Stat\<close> reports it) is below
  \<open>MIN_MULTIPART_SIZE\<close>, \<open>uploadMultipart\<close> is \<open>uploadFile\<close> on the same file, bucket,
  name, content type and device, run after the \<^verbatim>\<open>Stat\<close> call: the same result and
  the same world after it, whatever fails. No request of a multipart transfer is
  made.
\<close>

theorem uploadMultipart_small:
  assumes "file_Stat fl s = (Some n, s0)" and "n < MIN_MULTIPART_SIZE"
  shows "uploadMultipart bucketName fl fileName contentType deviceID s =
           uploadFile bucketName (ReadSeeker fl) fileName contentType deviceID s0
         \<and> n = length (fdata fl)
         \<and> filter is_multipart (trace (snd (uploadMultipart bucketName fl fileName contentType deviceID s)))
             = filter is_multipart (trace s)"
proof -
  from assms have 1: "uploadMultipart bucketName fl fileName contentType deviceID s =
           uploadFile bucketName (ReadSeeker fl) fileName contentType deviceID s0"
    by (simp add: uploadMultipart_def)
  from assms(1) have 2: "n = length (fdata fl)" "filter is_multipart (trace s0) = filter is_multipart (trace s)"
    by (auto simp: file_Stat_def invoke_def split: option.splits)
  from 1 2 uploadFile_no_multipart[of bucketName "ReadSeeker fl" fileName contentType deviceID s0]
  show ?thesis by simp
qed

theorem uploadMultipart_small_witness:
  "fst (file_Stat file_a world0) = Some 4 \<and> (4::nat) < MIN_MULTIPART_SIZE \<and>
   uploadMultipart ''pottery-log'' file_a ''a.png'' ''image/png'' ''dev1'' world0 =
     uploadFile ''pottery-log'' (ReadSeeker file_a) ''a.png'' ''image/png'' ''dev1'' (snd (file_Stat file_a world0)) \<and>
   fst (uploadMultipart ''pottery-log'' file_a ''a.png'' ''image/png'' ''dev1'' world0) =
     Inr ''https://pottery-log.s3.amazonaws.com/dev1/a.png'' \<and>
   trace (snd (uploadMultipart ''pottery-log'' file_a ''a.png'' ''image/png'' ''dev1'' world0)) =
     [FileStat ''a.png'', HeadObject ''pottery-log'' ''dev1/a.png'', PutObject ''pottery-log'' ''dev1/a.png'' ''image/png'' ''AAAA'']"
proof -
  obtain s0 where st: "file_Stat file_a world0 = (Some 4, s0)"
    by (simp add: file_Stat_def invoke_def world0_def file_a_def)
  have lt: "(4::nat) < MIN_MULTIPART_SIZE" by (simp add: MIN_MULTIPART_SIZE_def)
  note t = uploadMultipart_small[OF st lt, of "''pottery-log''" "''a.png''" "''image/png''" "''dev1''"]
  have ev: "fst (uploadFile ''pottery-log'' (ReadSeeker file_a) ''a.png'' ''image/png'' ''dev1'' s0)
     = Inr ''https://pottery-log.s3.amazonaws.com/dev1/a.png''"
    using st by (auto simp: s3_defs file_Stat_def world0_def file_a_def)
  have tr: "trace (snd (uploadFile ''pottery-log'' (ReadSeeker file_a) ''a.png'' ''image/png'' ''dev1'' s0))
     = [FileStat ''a.png'', HeadObject ''pottery-log'' ''dev1/a.png'', PutObject ''pottery-log'' ''dev1/a.png'' ''image/png'' ''AAAA'']"
    using st by (auto simp: s3_defs file_Stat_def world0_def file_a_def)
  from t lt ev tr show ?thesis unfolding st by simp
qed

section \<open>Fetching an archive from a link\<close>

text \<open>
  Claim C9. When the link parses and its host is not
  \<open>pottery-log-exports.s3.amazonaws.com\<close>, \<open>downloadImport\<close> returns the error
  \<open>The link must be a Pottery Log export link\<close> and the world is unchanged: no
  file is created and nothing is fetched. A link that does not parse is
  answered with the error of the parser, the world unchanged as well. When the
  host is the expected one, the local file is created and the object is
  requested from the import bucket. So a run that requests an object is a run on
  a link with exactly that host.
\<close>

theorem downloadImport_host_check:
  "(\<forall>s3url. url_Parse s urlString = Inr s3url \<and> Host s3url \<noteq> importBucketName @ ''.s3.amazonaws.com''
       \<longrightarrow> downloadImport urlString localFile s = (Some ValidationError_host, s)) \<and>
   (\<forall>perr. url_Parse s urlString = Inl perr \<longrightarrow> downloadImport urlString localFile s = (Some perr, s)) \<and>
   (\<forall>s3url. url_Parse s urlString = Inr s3url \<and> Host s3url = importBucketName @ ''.s3.amazonaws.com''
       \<longrightarrow> trace (snd (downloadImport urlString localFile s)) =
             trace s @ [OsCreate localFile, GetObject importBucketName (Path s3url)]) \<and>
   (filter is_GetObject (trace (snd (downloadImport urlString localFile s))) \<noteq> filter is_GetObject (trace s)
       \<longrightarrow> (\<exists>s3url. url_Parse s urlString = Inr s3url \<and> Host s3url = ''pottery-log-exports.s3.amazonaws.com''))"
  by (auto simp: downloadImport_def ValidationError_host_def importBucketName_def os_Create_def
      Download_def invoke_def Let_def split: sum.splits option.splits prod.splits)

theorem downloadImport_host_check_witness:
  "url_Parse world_links ''https://evil.example.com/export.zip'' = Inr \<lparr>Host = ''evil.example.com'', Path = ''/export.zip''\<rparr> \<and>
   ''evil.example.com'' \<noteq> importBucketName @ ''.s3.amazonaws.com'' \<and>
   downloadImport ''https://evil.example.com/export.zip'' ''/tmp/import.zip'' world_links = (Some ValidationError_host, world_links) \<and>
   url_Parse world_links ''https://pottery-log-exports.s3.amazonaws.com/dev1/export.zip'' =
     Inr \<lparr>Host = ''pottery-log-exports.s3.amazonaws.com'', Path = ''/dev1/export.zip''\<rparr> \<and>
   trace (snd (downloadImport ''https://pottery-log-exports.s3.amazonaws.com/dev1/export.zip'' ''/tmp/import.zip'' world_links)) =
     [OsCreate ''/tmp/import.zip'', GetObject ''pottery-log-exports'' ''/dev1/export.zip'']"
proof -
  have p1: "url_Parse world_links ''https://evil.example.com/export.zip'' = Inr \<lparr>Host = ''evil.example.com'', Path = ''/export.zip''\<rparr>"
    by (simp add: world_links_def known_links_def)
  have h1: "Host \<lparr>Host = ''evil.example.com'', Path = ''/export.zip''\<rparr> \<noteq> importBucketName @ ''.s3.amazonaws.com''"
    by (simp add: importBucketName_def)
  have p2: "url_Parse world_links ''https://pottery-log-exports.s3.amazonaws.com/dev1/export.zip'' =
     Inr \<lparr>Host = ''pottery-log-exports.s3.amazonaws.com'', Path = ''/dev1/export.zip''\<rparr>"
    by (simp add: world_links_def known_links_def)
  have h2: "Host \<lparr>Host = ''pottery-log-exports.s3.amazonaws.com'', Path = ''/dev1/export.zip''\<rparr> = importBucketName @ ''.s3.amazonaws.com''"
    by (simp add: importBucketName_def)
  note t1 = downloadImport_host_check[of world_links "''https://evil.example.com/export.zip''" "''/tmp/import.zip''",
      THEN conjunct1, THEN spec, THEN mp, OF conjI[OF p1 h1]]
  note t2 = downloadImport_host_check[of world_links "''https://pottery-log-exports.s3.amazonaws.com/dev1/export.zip''" "''/tmp/import.zip''",
      THEN conjunct2, THEN conjunct2, THEN conjunct1, THEN spec, THEN mp, OF conjI[OF p2 h2]]
  have tr: "trace world_links = []" by (simp add: world_links_def world0_def)
  from t1 t2 p1 p2 h1 tr show ?thesis by (simp add: importBucketName_def)
qed


section \<open>Multipart uploads\<close>

lemmas loop_defs = file_Read_def svc_UploadPart_def abortMultipartUpload_def
  svc_AbortMultipartUpload_def invoke_def PART_SIZE_def Let_def chunk_def abort_call_def part_call_def

lemma loop_read_fails:
  assumes "faults s (length (trace s)) = Some e" and "e \<noteq> EOF"
  shows "read_loop upl fl p cps s =
           (Inl e, s\<lparr>trace := trace s @ [FileRead (fname fl) (fpos fl), abort_call upl]\<rparr>)"
  using assms by (subst read_loop.simps) (simp add: loop_defs)

lemma loop_read_eof_fault:
  assumes "faults s (length (trace s)) = Some EOF"
  shows "read_loop upl fl p cps s = (Inr cps, s\<lparr>trace := trace s @ [FileRead (fname fl) (fpos fl)]\<rparr>)"
  using assms by (subst read_loop.simps) (simp add: loop_defs)

lemma loop_at_end:
  assumes "faults s (length (trace s)) = None" and "length (fdata fl) \<le> fpos fl"
  shows "read_loop upl fl p cps s = (Inr cps, s\<lparr>trace := trace s @ [FileRead (fname fl) (fpos fl)]\<rparr>)"
  using assms by (subst read_loop.simps) (simp add: loop_defs)

lemma loop_part_fails:
  assumes "faults s (length (trace s)) = None" and "fpos fl < length (fdata fl)"
      and "faults s (Suc (length (trace s))) = Some e"
  shows "read_loop upl fl p cps s =
           (Inl e, s\<lparr>trace := trace s @ [FileRead (fname fl) (fpos fl), part_call upl p (chunk fl), abort_call upl]\<rparr>)"
  using assms by (subst read_loop.simps) (auto simp: loop_defs min_def)

lemma loop_next:
  assumes "faults s (length (trace s)) = None" and "fpos fl < length (fdata fl)"
      and "faults s (Suc (length (trace s))) = None"
  shows "read_loop upl fl p cps s =
           read_loop upl (fl\<lparr>fpos := fpos fl + length (chunk fl)\<rparr>) (p + 1)
             (cps @ [\<lparr>ETag = chunk fl, PartNumber = p\<rparr>])
             (s\<lparr>trace := trace s @ [FileRead (fname fl) (fpos fl), part_call upl p (chunk fl)]\<rparr>)"
  using assms by (subst read_loop.simps) (auto simp: loop_defs min_def)

lemma chunk_pos: "fpos fl < length (fdata fl) \<Longrightarrow> 0 < length (chunk fl) \<and> length (chunk fl) \<le> PART_SIZE"
  by (simp add: chunk_def PART_SIZE_def)

lemma loop_cases:
  obtains (read_fails) e where "faults s (length (trace s)) = Some e" "e \<noteq> EOF"
  | (eof_fault) "faults s (length (trace s)) = Some EOF"
  | (at_end) "faults s (length (trace s)) = None" "length (fdata fl) \<le> fpos fl"
  | (part_fails) e where "faults s (length (trace s)) = None" "fpos fl < length (fdata fl)"
      "faults s (Suc (length (trace s))) = Some e"
  | (next_round) "faults s (length (trace s)) = None" "fpos fl < length (fdata fl)"
      "faults s (Suc (length (trace s))) = None"
  by (cases "faults s (length (trace s))"; cases "faults s (Suc (length (trace s)))";
      cases "length (fdata fl) \<le> fpos fl") (auto simp: not_le)

lemma advance_less:
  assumes "fpos fl < length (fdata fl)"
  shows "length (fdata (advance fl)) - fpos (advance fl) < length (fdata fl) - fpos fl"
proof -
  from chunk_pos[OF assms] have "0 < length (chunk fl)" by (rule conjunct1)
  with assms have "length (fdata fl) - (fpos fl + length (chunk fl)) < length (fdata fl) - fpos fl"
    by arith
  then show ?thesis by (simp add: advance_def)
qed

lemma advance_simps [simp]: "fname (advance fl) = fname fl" "fdata (advance fl) = fdata fl"
  by (simp_all add: advance_def)

lemma loop_world:
  "snd (read_loop upl fl p cps s) = s\<lparr>trace := trace s @ loop_calls upl fl p cps s\<rparr>"
proof (induction "length (fdata fl) - fpos fl" arbitrary: fl p cps s rule: less_induct)
  case less
  show ?case
  proof (cases rule: loop_cases[where s = s and fl = fl])
    case (read_fails e)
    then show ?thesis by (simp add: loop_calls_def loop_read_fails)
  next
    case eof_fault
    then show ?thesis by (simp add: loop_calls_def loop_read_eof_fault)
  next
    case at_end
    then show ?thesis by (simp add: loop_calls_def loop_at_end)
  next
    case (part_fails e)
    then show ?thesis by (simp add: loop_calls_def loop_part_fails)
  next
    case next_round
    let ?s2 = "s\<lparr>trace := trace s @ [FileRead (fname fl) (fpos fl), part_call upl p (chunk fl)]\<rparr>"
    let ?cps = "cps @ [\<lparr>ETag = chunk fl, PartNumber = p\<rparr>]"
    have step: "read_loop upl fl p cps s = read_loop upl (advance fl) (p + 1) ?cps ?s2"
      using loop_next[OF next_round] by (simp add: advance_def)
    have ih: "snd (read_loop upl (advance fl) (p + 1) ?cps ?s2) =
        ?s2\<lparr>trace := trace ?s2 @ loop_calls upl (advance fl) (p + 1) ?cps ?s2\<rparr>"
      by (rule less.hyps[OF advance_less[OF next_round(2)]])
    show ?thesis
      unfolding loop_calls_def[of upl fl p cps s] step
      by (subst ih, subst ih) simp
  qed
qed

lemma loop_calls_read_fails:
  "faults s (length (trace s)) = Some e \<Longrightarrow> e \<noteq> EOF \<Longrightarrow>
   loop_calls upl fl p cps s = [FileRead (fname fl) (fpos fl), abort_call upl]"
  by (simp add: loop_calls_def loop_read_fails)

lemma loop_calls_eof_fault:
  "faults s (length (trace s)) = Some EOF \<Longrightarrow>
   loop_calls upl fl p cps s = [FileRead (fname fl) (fpos fl)]"
  by (simp add: loop_calls_def loop_read_eof_fault)

lemma loop_calls_at_end:
  "faults s (length (trace s)) = None \<Longrightarrow> length (fdata fl) \<le> fpos fl \<Longrightarrow>
   loop_calls upl fl p cps s = [FileRead (fname fl) (fpos fl)]"
  by (simp add: loop_calls_def loop_at_end)

lemma loop_calls_part_fails:
  "faults s (length (trace s)) = None \<Longrightarrow> fpos fl < length (fdata fl) \<Longrightarrow>
   faults s (Suc (length (trace s))) = Some e \<Longrightarrow>
   loop_calls upl fl p cps s = [FileRead (fname fl) (fpos fl), part_call upl p (chunk fl), abort_call upl]"
  by (simp add: loop_calls_def loop_part_fails)

lemma loop_calls_next:
  assumes "faults s (length (trace s)) = None" and "fpos fl < length (fdata fl)"
      and "faults s (Suc (length (trace s))) = None"
  shows "loop_calls upl fl p cps s =
     FileRead (fname fl) (fpos fl) # part_call upl p (chunk fl) #
     loop_calls upl (advance fl) (Suc p) (cps @ [\<lparr>ETag = chunk fl, PartNumber = p\<rparr>])
       (s\<lparr>trace := trace s @ [FileRead (fname fl) (fpos fl), part_call upl p (chunk fl)]\<rparr>)"
proof -
  let ?s2 = "s\<lparr>trace := trace s @ [FileRead (fname fl) (fpos fl), part_call upl p (chunk fl)]\<rparr>"
  let ?cps = "cps @ [\<lparr>ETag = chunk fl, PartNumber = p\<rparr>]"
  have step: "read_loop upl fl p cps s = read_loop upl (advance fl) (Suc p) ?cps ?s2"
    using loop_next[OF assms] by (simp add: advance_def)
  show ?thesis
    unfolding loop_calls_def[of upl fl p cps s] step
    by (subst loop_world) simp
qed

lemma submitted_simps [simp]:
  "submitted [] = []"
  "submitted (FileRead nm off # cs) = submitted cs"
  "submitted (part_call upl pn body # cs) = (pn, body) # submitted cs"
  "submitted (abort_call upl # cs) = submitted cs"
  by (simp_all add: submitted_def part_call_def abort_call_def)

lemma PART_SIZE_pos: "0 < PART_SIZE"
  by (simp add: PART_SIZE_def)

lemma ceil_div_small:
  assumes "0 < P" and "0 < r" and "r \<le> P"
  shows "ceil_div r P = 1"
proof -
  have "P \<le> r + P - 1" using assms by arith
  moreover have "r + P - 1 < 2 * P" using assms by arith
  ultimately have "(r + P - 1) div P = 1"
    by (intro div_nat_eqI) simp_all
  then show ?thesis by (simp add: ceil_div_def)
qed

lemma ceil_div_zero: "0 < P \<Longrightarrow> ceil_div 0 P = 0"
  by (simp add: ceil_div_def)

lemma div_add_one: "0 < P \<Longrightarrow> (a + P) div P = Suc (a div (P::nat))"
  by (simp add: div_add_self2)

lemma ceil_div_large:
  assumes "0 < P" and "P < r"
  shows "ceil_div r P = Suc (ceil_div (r - P) P)"
proof -
  obtain a where a: "r = Suc a" using assms by (cases r) auto
  have e1: "Suc a + P - 1 = a + P" by simp
  have e2: "Suc a - P + P - 1 = a" using assms a by arith
  show ?thesis unfolding ceil_div_def a e1 e2 using assms(1) by (rule div_add_one)
qed

lemma ceil_div_step:
  assumes "0 < P" and "0 < r"
  shows "ceil_div r P = Suc (ceil_div (r - min P r) P)"
proof (cases "r \<le> P")
  case True
  with assms show ?thesis by (simp add: ceil_div_small ceil_div_zero min_def)
next
  case False
  with assms show ?thesis by (simp add: ceil_div_large min_def)
qed

lemma chunk_length: "length (chunk fl) = min PART_SIZE (length (fdata fl) - fpos fl)"
  by (simp add: chunk_def min_def)

lemma remaining_advance:
  "length (fdata (advance fl)) - fpos (advance fl) =
     (length (fdata fl) - fpos fl) - min PART_SIZE (length (fdata fl) - fpos fl)"
  by (simp add: advance_def chunk_length)

lemma take_drop_length: "take n xs @ drop (length (take n xs)) xs = xs"
  by (cases "n \<le> length xs") (simp_all add: min_def)

lemma chunk_rest: "chunk fl @ drop (fpos (advance fl)) (fdata fl) = drop (fpos fl) (fdata fl)"
proof -
  have "drop (fpos fl + length (chunk fl)) (fdata fl) = drop (length (chunk fl)) (drop (fpos fl) (fdata fl))"
    by (simp add: add.commute)
  then have "chunk fl @ drop (fpos (advance fl)) (fdata fl) =
      take PART_SIZE (drop (fpos fl) (fdata fl)) @
      drop (length (take PART_SIZE (drop (fpos fl) (fdata fl)))) (drop (fpos fl) (fdata fl))"
    unfolding advance_def chunk_def by simp
  then show ?thesis unfolding take_drop_length .
qed

lemma ceil_div_pos: "0 < r \<Longrightarrow> Suc 0 \<le> ceil_div r PART_SIZE"
  using ceil_div_step[OF PART_SIZE_pos, of r] by simp

lemma ceil_div_advance:
  assumes "fpos fl < length (fdata fl)"
  shows "ceil_div (length (fdata fl) - fpos fl) PART_SIZE =
     Suc (ceil_div (length (fdata (advance fl)) - fpos (advance fl)) PART_SIZE)"
proof -
  from assms have "0 < length (fdata fl) - fpos fl" by simp
  from ceil_div_step[OF PART_SIZE_pos this] show ?thesis
    unfolding remaining_advance .
qed

lemma chunk_ne: "fpos fl < length (fdata fl) \<Longrightarrow> chunk fl \<noteq> []"
  using chunk_pos[of fl] by auto

lemma chunk_le: "length (chunk fl) \<le> PART_SIZE"
  by (simp add: chunk_def)

lemma numbered_upt: "numbered p xs \<Longrightarrow> map fst xs = [p ..< p + length xs]"
proof (induction xs arbitrary: p)
  case Nil
  then show ?case by simp
next
  case (Cons x xs)
  from Cons.prems have n: "numbered (Suc p) xs" and x: "fst x = p" by simp_all
  have ih: "map fst xs = [Suc p ..< Suc p + length xs]" by (rule Cons.IH[OF n])
  have "[p ..< p + length (x # xs)] = p # [Suc p ..< Suc p + length xs]"
    by (simp add: upt_conv_Cons del: upt_Suc)
  with ih x show ?case by (simp del: upt_Suc)
qed

lemma loop_parts:
  "numbered p (submitted (loop_calls upl fl p cps s))
   \<and> list_all (\<lambda>part. snd part \<noteq> [] \<and> length (snd part) \<le> PART_SIZE)
        (submitted (loop_calls upl fl p cps s))
   \<and> length (submitted (loop_calls upl fl p cps s)) \<le> ceil_div (length (fdata fl) - fpos fl) PART_SIZE"
proof (induction "length (fdata fl) - fpos fl" arbitrary: fl p cps s rule: less_induct)
  case less
  show ?case
  proof (cases rule: loop_cases[where s = s and fl = fl])
    case (read_fails e)
    then show ?thesis by (simp add: loop_calls_read_fails)
  next
    case eof_fault
    then show ?thesis by (simp add: loop_calls_eof_fault)
  next
    case at_end
    then show ?thesis by (simp add: loop_calls_at_end)
  next
    case (part_fails e)
    have "Suc 0 \<le> ceil_div (length (fdata fl) - fpos fl) PART_SIZE"
      using part_fails(2) by (intro ceil_div_pos) simp
    with part_fails chunk_ne[OF part_fails(2)] chunk_le[of fl] show ?thesis
      by (simp add: loop_calls_part_fails)
  next
    case next_round
    let ?s2 = "s\<lparr>trace := trace s @ [FileRead (fname fl) (fpos fl), part_call upl p (chunk fl)]\<rparr>"
    let ?cps = "cps @ [\<lparr>ETag = chunk fl, PartNumber = p\<rparr>]"
    note ih = less.hyps[OF advance_less[OF next_round(2)], of "Suc p" ?cps ?s2]
    note cd = ceil_div_advance[OF next_round(2)]
    from ih chunk_ne[OF next_round(2)] chunk_le[of fl] show ?thesis
      unfolding loop_calls_next[OF next_round] cd by simp
  qed
qed

lemma loop_result_read_fails:
  "faults s (length (trace s)) = Some e \<Longrightarrow> e \<noteq> EOF \<Longrightarrow> fst (read_loop upl fl p cps s) = Inl e"
  by (simp add: loop_read_fails)

lemma loop_result_eof_fault:
  "faults s (length (trace s)) = Some EOF \<Longrightarrow> fst (read_loop upl fl p cps s) = Inr cps"
  by (simp add: loop_read_eof_fault)

lemma loop_result_at_end:
  "faults s (length (trace s)) = None \<Longrightarrow> length (fdata fl) \<le> fpos fl \<Longrightarrow>
   fst (read_loop upl fl p cps s) = Inr cps"
  by (simp add: loop_at_end)

lemma loop_result_part_fails:
  "faults s (length (trace s)) = None \<Longrightarrow> fpos fl < length (fdata fl) \<Longrightarrow>
   faults s (Suc (length (trace s))) = Some e \<Longrightarrow> fst (read_loop upl fl p cps s) = Inl e"
  by (simp add: loop_part_fails)

lemma loop_result_next:
  assumes "faults s (length (trace s)) = None" and "fpos fl < length (fdata fl)"
      and "faults s (Suc (length (trace s))) = None"
  shows "fst (read_loop upl fl p cps s) =
     fst (read_loop upl (advance fl) (Suc p) (cps @ [\<lparr>ETag = chunk fl, PartNumber = p\<rparr>])
       (s\<lparr>trace := trace s @ [FileRead (fname fl) (fpos fl), part_call upl p (chunk fl)]\<rparr>))"
  using loop_next[OF assms] by (simp add: advance_def)

lemma loop_complete:
  assumes "\<forall>i \<ge> length (trace s). faults s i = None"
  shows "fst (read_loop upl fl p cps s) = Inr (cps @ completed (submitted (loop_calls upl fl p cps s)))
   \<and> length (submitted (loop_calls upl fl p cps s)) = ceil_div (length (fdata fl) - fpos fl) PART_SIZE
   \<and> concat (map snd (submitted (loop_calls upl fl p cps s))) = drop (fpos fl) (fdata fl)
   \<and> loop_calls upl fl p cps s \<noteq> []
   \<and> last (loop_calls upl fl p cps s) = FileRead (fname fl) (max (fpos fl) (length (fdata fl)))"
  using assms
proof (induction "length (fdata fl) - fpos fl" arbitrary: fl p cps s rule: less_induct)
  case less
  from less.prems have f0: "faults s (length (trace s)) = None" and f1: "faults s (Suc (length (trace s))) = None"
    by simp_all
  show ?case
  proof (cases "fpos fl < length (fdata fl)")
    case False
    then have "length (fdata fl) \<le> fpos fl" by simp
    with f0 show ?thesis
      by (simp add: loop_calls_at_end loop_result_at_end completed_def ceil_div_zero[OF PART_SIZE_pos] max_def)
  next
    case True
    let ?s2 = "s\<lparr>trace := trace s @ [FileRead (fname fl) (fpos fl), part_call upl p (chunk fl)]\<rparr>"
    let ?cps = "cps @ [\<lparr>ETag = chunk fl, PartNumber = p\<rparr>]"
    have q: "\<forall>i \<ge> length (trace ?s2). faults ?s2 i = None" using less.prems by simp
    note ih = less.hyps[OF advance_less[OF True] q, of "Suc p" ?cps]
    have le: "fpos (advance fl) \<le> length (fdata fl)"
      using True by (simp add: advance_def chunk_length)
    from ih le True show ?thesis
      unfolding loop_calls_next[OF f0 True f1] loop_result_next[OF f0 True f1]
        ceil_div_advance[OF True]
      by (simp add: completed_def chunk_rest max_def)
  qed
qed

lemma kinds_simps [simp]:
  "is_UploadPart (part_call upl pn body)" "\<not> is_UploadPart (abort_call upl)"
  "\<not> is_FileRead (part_call upl pn body)" "\<not> is_FileRead (abort_call upl)"
  "\<not> is_Complete (part_call upl pn body)" "\<not> is_Complete (abort_call upl)"
  by (simp_all add: part_call_def abort_call_def)

lemma loop_kinds:
  "list_all (\<lambda>c. is_FileRead c \<or> is_UploadPart c \<or> c = abort_call upl) (loop_calls upl fl p cps s)"
proof (induction "length (fdata fl) - fpos fl" arbitrary: fl p cps s rule: less_induct)
  case less
  show ?case
  proof (cases rule: loop_cases[where s = s and fl = fl])
    case (read_fails e)
    then show ?thesis by (simp add: loop_calls_read_fails)
  next
    case eof_fault
    then show ?thesis by (simp add: loop_calls_eof_fault)
  next
    case at_end
    then show ?thesis by (simp add: loop_calls_at_end)
  next
    case (part_fails e)
    then show ?thesis by (simp add: loop_calls_part_fails)
  next
    case next_round
    from less.hyps[OF advance_less[OF next_round(2)]] show ?thesis
      unfolding loop_calls_next[OF next_round] by simp
  qed
qed

lemma loop_abort:
  assumes "j < length (loop_calls upl fl p cps s)"
      and "faults s (length (trace s) + j) = Some e"
      and "is_UploadPart (loop_calls upl fl p cps s ! j)
           \<or> (is_FileRead (loop_calls upl fl p cps s ! j) \<and> e \<noteq> EOF)"
  shows "fst (read_loop upl fl p cps s) = Inl e
         \<and> length (loop_calls upl fl p cps s) = j + 2
         \<and> loop_calls upl fl p cps s ! Suc j = abort_call upl"
  using assms
proof (induction "length (fdata fl) - fpos fl" arbitrary: fl p cps s j rule: less_induct)
  case less
  show ?case
  proof (cases rule: loop_cases[where s = s and fl = fl])
    case (read_fails e')
    with less.prems show ?thesis
      by (cases j) (auto simp: loop_calls_read_fails loop_result_read_fails)
  next
    case eof_fault
    with less.prems show ?thesis
      by (cases j) (auto simp: loop_calls_eof_fault)
  next
    case at_end
    with less.prems show ?thesis
      by (cases j) (auto simp: loop_calls_at_end)
  next
    case (part_fails e')
    with less.prems show ?thesis
      by (cases j rule: nat.exhaust; cases "j - 1" rule: nat.exhaust)
         (auto simp: loop_calls_part_fails loop_result_part_fails)
  next
    case next_round
    let ?s2 = "s\<lparr>trace := trace s @ [FileRead (fname fl) (fpos fl), part_call upl p (chunk fl)]\<rparr>"
    let ?cps = "cps @ [\<lparr>ETag = chunk fl, PartNumber = p\<rparr>]"
    have "j \<noteq> 0"
    proof
      assume "j = 0"
      with less.prems(2) next_round(1) show False by simp
    qed
    moreover have "j \<noteq> Suc 0"
    proof
      assume "j = Suc 0"
      with less.prems(2) next_round(3) show False by simp
    qed
    ultimately have "j \<noteq> 0" "j \<noteq> Suc 0" by simp_all
    then obtain k where k: "j = Suc (Suc k)"
      by (cases j rule: nat.exhaust; cases "j - 1" rule: nat.exhaust) auto
    have 1: "k < length (loop_calls upl (advance fl) (Suc p) ?cps ?s2)"
      using less.prems(1) unfolding loop_calls_next[OF next_round] k by simp
    have 2: "faults ?s2 (length (trace ?s2) + k) = Some e"
      using less.prems(2) unfolding k by simp
    have 3: "is_UploadPart (loop_calls upl (advance fl) (Suc p) ?cps ?s2 ! k)
           \<or> (is_FileRead (loop_calls upl (advance fl) (Suc p) ?cps ?s2 ! k) \<and> e \<noteq> EOF)"
      using less.prems(3) unfolding loop_calls_next[OF next_round] k by simp
    from less.hyps[OF advance_less[OF next_round(2)] 1 2 3] show ?thesis
      unfolding loop_calls_next[OF next_round] loop_result_next[OF next_round] k by simp
  qed
qed

lemmas prelude_defs = file_Stat_def objectExists_def svc_HeadObject_def
  svc_CreateMultipartUpload_def invoke_def

lemma multipart_branch:
  assumes "key = deviceID @ ''/'' @ fileName"
      and "file_Stat fl s = (Some n, s0)" and "MIN_MULTIPART_SIZE \<le> n"
      and "objectExists bucketName key s0 = (False, s1)"
      and "svc_CreateMultipartUpload bucketName key contentType s1 = (Inr upl, s2)"
  shows "uploadMultipart bucketName fl fileName contentType deviceID s =
           (case read_loop upl fl 1 [] s2 of
              (Inl err, s3) \<Rightarrow> (Inl err, s3)
            | (Inr completedParts, s3) \<Rightarrow>
                (case svc_CompleteMultipartUpload upl completedParts s3 of
                   (Some err, s4) \<Rightarrow> (Inl err, s4)
                 | (None, s4) \<Rightarrow> (Inr (objectUrl bucketName key), s4)))"
    and "s2 = s\<lparr>trace := trace s @ [FileStat (fname fl), HeadObject bucketName key,
            CreateMultipartUpload bucketName key contentType]\<rparr>"
    and "upl = \<lparr>Bucket = bucketName, Key = key, UploadId = length (trace s) + 2\<rparr>"
    and "n = length (fdata fl)"
    and "faults s (length (trace s) + 2) = None"
proof -
  from assms(3) have nl: "\<not> n < MIN_MULTIPART_SIZE" by simp
  show "uploadMultipart bucketName fl fileName contentType deviceID s =
           (case read_loop upl fl 1 [] s2 of
              (Inl err, s3) \<Rightarrow> (Inl err, s3)
            | (Inr completedParts, s3) \<Rightarrow>
                (case svc_CompleteMultipartUpload upl completedParts s3 of
                   (Some err, s4) \<Rightarrow> (Inl err, s4)
                 | (None, s4) \<Rightarrow> (Inr (objectUrl bucketName key), s4)))"
    unfolding uploadMultipart_def Let_def assms(1)[symmetric]
    using nl assms(2,4,5) by simp
  from assms(2) have s0: "s0 = s\<lparr>trace := trace s @ [FileStat (fname fl)]\<rparr>" and n: "n = length (fdata fl)"
    by (auto simp: prelude_defs split: option.splits)
  from assms(4) have s1: "s1 = s0\<lparr>trace := trace s0 @ [HeadObject bucketName key]\<rparr>"
    by (auto simp: prelude_defs split: option.splits if_splits)
  from assms(5) have s2: "s2 = s1\<lparr>trace := trace s1 @ [CreateMultipartUpload bucketName key contentType]\<rparr>"
    and u: "upl = \<lparr>Bucket = bucketName, Key = key, UploadId = length (trace s1)\<rparr>"
    and f: "faults s1 (length (trace s1)) = None"
    by (auto simp: prelude_defs split: option.splits if_splits)
  from s0 s1 s2 show "s2 = s\<lparr>trace := trace s @ [FileStat (fname fl), HeadObject bucketName key,
            CreateMultipartUpload bucketName key contentType]\<rparr>"
    by simp
  from s0 s1 u show "upl = \<lparr>Bucket = bucketName, Key = key, UploadId = length (trace s) + 2\<rparr>"
    by simp
  from n show "n = length (fdata fl)" .
  from f s0 s1 show "faults s (length (trace s) + 2) = None" by simp
qed

lemma submitted_append: "submitted (xs @ ys) = submitted xs @ submitted ys"
  by (simp add: submitted_def map_filter_def)

lemma submitted_other [simp]:
  "submitted (FileStat nm # cs) = submitted cs"
  "submitted (HeadObject b k # cs) = submitted cs"
  "submitted (CreateMultipartUpload b k ct # cs) = submitted cs"
  "submitted (CompleteMultipartUpload b k uid parts # cs) = submitted cs"
  by (simp_all add: submitted_def)

lemma multipart_calls:
  assumes "key = deviceID @ ''/'' @ fileName"
      and "file_Stat fl s = (Some n, s0)" and "MIN_MULTIPART_SIZE \<le> n"
      and "objectExists bucketName key s0 = (False, s1)"
      and "svc_CreateMultipartUpload bucketName key contentType s1 = (Inr upl, s2)"
      and "uploadMultipart bucketName fl fileName contentType deviceID s = (r, s')"
  shows "(\<exists>e. r = Inl e \<and> fst (read_loop upl fl 1 [] s2) = Inl e \<and> objects s' = objects s \<and>
            trace s' = trace s @ [FileStat (fname fl), HeadObject bucketName key,
              CreateMultipartUpload bucketName key contentType] @ loop_calls upl fl 1 [] s2)
       \<or> (\<exists>cps. fst (read_loop upl fl 1 [] s2) = Inr cps \<and>
            trace s' = trace s @ [FileStat (fname fl), HeadObject bucketName key,
              CreateMultipartUpload bucketName key contentType] @ loop_calls upl fl 1 [] s2
              @ [CompleteMultipartUpload bucketName key (UploadId upl) cps] \<and>
            (case faults s (length (trace s) + 3 + length (loop_calls upl fl 1 [] s2)) of
               Some err \<Rightarrow> r = Inl err
             | None \<Rightarrow> r = Inr (objectUrl bucketName key)))"
proof -
  note b = multipart_branch[OF assms(1-5)]
  obtain lr s3 where l: "read_loop upl fl 1 [] s2 = (lr, s3)" by (cases "read_loop upl fl 1 [] s2") auto
  from loop_world[of upl fl 1 "[]" s2] l
  have s3: "s3 = s2\<lparr>trace := trace s2 @ loop_calls upl fl 1 [] s2\<rparr>" by simp
  have bk: "Bucket upl = bucketName" "Key upl = key" using b(3) by simp_all
  have tr3: "trace s3 = trace s @ [FileStat (fname fl), HeadObject bucketName key,
              CreateMultipartUpload bucketName key contentType] @ loop_calls upl fl 1 [] s2"
    and o3: "objects s3 = objects s" and f3: "faults s3 = faults s"
    unfolding s3 by (simp_all add: b(2))
  show ?thesis
  proof (cases lr)
    case (Inl e)
    with assms(6) b(1) l have "r = Inl e" "s' = s3" by simp_all
    with Inl l tr3 o3 show ?thesis by simp
  next
    case (Inr cps)
    with assms(6) b(1) l have rs: "(r, s') = (case svc_CompleteMultipartUpload upl cps s3 of
                   (Some err, s4) \<Rightarrow> (Inl err, s4)
                 | (None, s4) \<Rightarrow> (Inr (objectUrl bucketName key), s4))"
      by simp
    have len: "length (trace s3) = length (trace s) + 3 + length (loop_calls upl fl 1 [] s2)"
      unfolding tr3 by simp
    have tr: "trace s' = trace s3 @ [CompleteMultipartUpload bucketName key (UploadId upl) cps]"
      using rs by (auto simp: svc_CompleteMultipartUpload_def invoke_def bk split: option.splits)
    have res: "(case faults s (length (trace s3)) of
               Some err \<Rightarrow> r = Inl err
             | None \<Rightarrow> r = Inr (objectUrl bucketName key))"
      using rs by (auto simp: svc_CompleteMultipartUpload_def invoke_def f3 split: option.splits)
    have "trace s' = trace s @ [FileStat (fname fl), HeadObject bucketName key,
              CreateMultipartUpload bucketName key contentType] @ loop_calls upl fl 1 [] s2
              @ [CompleteMultipartUpload bucketName key (UploadId upl) cps]"
      unfolding tr tr3 by simp
    with Inr l res len show ?thesis by simp
  qed
qed

lemma uploadFile_calls:
  "\<exists>evs. trace (snd (uploadFile bucketName src fileName contentType deviceID s)) = trace s @ evs
         \<and> quiet evs"
  by (cases src)
     (auto simp: uploadFile_def objectExists_def svc_HeadObject_def svc_PutObject_def invoke_def
        ReadAll_def quiet_def Let_def split: option.splits if_splits prod.splits sum.splits)

lemma single_calls:
  assumes run: "uploadMultipart bucketName fl fileName contentType deviceID s = (r, s')"
      and key: "key = deviceID @ ''/'' @ fileName"
  shows "(\<exists>n s0 s1 upl s2. file_Stat fl s = (Some n, s0) \<and> MIN_MULTIPART_SIZE \<le> n \<and>
              objectExists bucketName key s0 = (False, s1) \<and>
              svc_CreateMultipartUpload bucketName key contentType s1 = (Inr upl, s2))
         \<or> (\<exists>evs. trace s' = trace s @ evs \<and> quiet evs)"
proof -
  obtain st s0 where st: "file_Stat fl s = (st, s0)" by (cases "file_Stat fl s") auto
  then have t0: "trace s0 = trace s @ [FileStat (fname fl)]"
    by (auto simp: prelude_defs split: option.splits)
  show ?thesis
  proof (cases st)
    case None
    with run st have "s' = s0" by (simp add: uploadMultipart_def)
    with t0 show ?thesis by (simp add: quiet_def)
  next
    case (Some n)
    show ?thesis
    proof (cases "n < MIN_MULTIPART_SIZE")
      case True
      with run st Some have "s' = snd (uploadFile bucketName (ReadSeeker fl) fileName contentType deviceID s0)"
        by (simp add: uploadMultipart_def)
      with uploadFile_calls[of bucketName "ReadSeeker fl" fileName contentType deviceID s0]
      obtain evs where "trace s' = trace s0 @ evs" "quiet evs" by auto
      with t0 have "trace s' = trace s @ (FileStat (fname fl) # evs) \<and> quiet (FileStat (fname fl) # evs)"
        by (simp add: quiet_def)
      then show ?thesis by blast
    next
      case False
      obtain ex s1 where ex: "objectExists bucketName key s0 = (ex, s1)"
        by (cases "objectExists bucketName key s0") auto
      then have t1: "trace s1 = trace s0 @ [HeadObject bucketName key]"
        by (auto simp: prelude_defs split: option.splits if_splits)
      show ?thesis
      proof (cases ex)
        case True
        with run st Some False ex have "s' = s1"
          unfolding uploadMultipart_def Let_def key[symmetric] by simp
        with t0 t1 show ?thesis by (simp add: quiet_def)
      next
        case nex: False
        obtain cr s2 where cr: "svc_CreateMultipartUpload bucketName key contentType s1 = (cr, s2)"
          by (cases "svc_CreateMultipartUpload bucketName key contentType s1") auto
        then have t2: "trace s2 = trace s1 @ [CreateMultipartUpload bucketName key contentType]"
          by (auto simp: prelude_defs split: option.splits if_splits)
        show ?thesis
        proof (cases cr)
          case (Inl err)
          with run st Some False ex nex cr have "s' = s2"
            unfolding uploadMultipart_def Let_def key[symmetric] by simp
          with t0 t1 t2 show ?thesis by (simp add: quiet_def)
        next
          case (Inr upl)
          with st Some False ex nex cr show ?thesis by auto
        qed
      qed
    qed
  qed
qed

text \<open>
  Claim C4, amended. Take a file whose size \<open>n\<close> is at least
  \<open>MIN_MULTIPART_SIZE\<close>, whose object the existence probe does not find and for
  which the multipart session has been started, and let \<open>k\<close> be the number of
  bytes from the offset of the file to its end divided by \<open>PART_SIZE\<close>, rounded
  up (for a file read from its start, the size divided by the part size,
  rounded up). Whatever fails, the parts \<open>uploadMultipart\<close> submits are numbered
  1, 2, 3 and so on without a gap, in this order, none of them is empty or
  longer than \<open>PART_SIZE\<close>, and there are at most \<open>k\<close> of them. When no call
  fails after the session has been started, the parts are exactly those
  numbered 1 to \<open>k\<close>, together they are the bytes of the file from its offset
  on, the last read is the read at the end of the file (which yields no bytes),
  the request that follows it completes the upload with these parts, and the
  address of the object is returned.
\<close>

theorem multipart_parts:
  assumes "file_Stat fl s = (Some n, s0)" and "MIN_MULTIPART_SIZE \<le> n"
      and "objectExists bucketName (deviceID @ ''/'' @ fileName) s0 = (False, s1)"
      and "svc_CreateMultipartUpload bucketName (deviceID @ ''/'' @ fileName) contentType s1 = (Inr upl, s2)"
      and "uploadMultipart bucketName fl fileName contentType deviceID s = (r, s')"
      and "k = ceil_div (n - fpos fl) PART_SIZE"
  shows "map fst (parts_submitted s s') = [1 ..< Suc (length (parts_submitted s s'))]
       \<and> list_all (\<lambda>part. snd part \<noteq> [] \<and> length (snd part) \<le> PART_SIZE) (parts_submitted s s')
       \<and> length (parts_submitted s s') \<le> k
       \<and> ((\<forall>i \<ge> length (trace s2). faults s i = None) \<longrightarrow>
             map fst (parts_submitted s s') = [1 ..< Suc k]
           \<and> concat (map snd (parts_submitted s s')) = drop (fpos fl) (fdata fl)
           \<and> last (butlast (new_calls s s')) = FileRead (fname fl) (max (fpos fl) n)
           \<and> last (new_calls s s') =
               CompleteMultipartUpload bucketName (deviceID @ ''/'' @ fileName) (UploadId upl)
                 (completed (parts_submitted s s'))
           \<and> r = Inr (objectUrl bucketName (deviceID @ ''/'' @ fileName)))"
proof -
  let ?key = "deviceID @ ''/'' @ fileName"
  let ?lc = "loop_calls upl fl 1 [] s2"
  note b = multipart_branch[OF refl assms(1-4)]
  note c = multipart_calls[OF refl assms(1-5)]
  have ps: "parts_submitted s s' = submitted ?lc"
    using c by (auto simp: parts_submitted_def submitted_append)
  note lp = loop_parts[of 1 upl fl "[]" s2]
  have n: "n = length (fdata fl)" by (rule b(4))
  have 1: "map fst (parts_submitted s s') = [1 ..< Suc (length (parts_submitted s s'))]"
    unfolding ps using numbered_upt[of 1 "submitted ?lc"] lp by simp
  have 2: "list_all (\<lambda>part. snd part \<noteq> [] \<and> length (snd part) \<le> PART_SIZE) (parts_submitted s s')"
    unfolding ps using lp by simp
  have 3: "length (parts_submitted s s') \<le> k"
    unfolding ps assms(6) n using lp by simp
  have 4: "map fst (parts_submitted s s') = [1 ..< Suc k]
           \<and> concat (map snd (parts_submitted s s')) = drop (fpos fl) (fdata fl)
           \<and> last (butlast (new_calls s s')) = FileRead (fname fl) (max (fpos fl) n)
           \<and> last (new_calls s s') =
               CompleteMultipartUpload bucketName ?key (UploadId upl) (completed (parts_submitted s s'))
           \<and> r = Inr (objectUrl bucketName ?key)"
    if q: "\<forall>i \<ge> length (trace s2). faults s i = None"
  proof -
    have q2: "\<forall>i \<ge> length (trace s2). faults s2 i = None" using q by (simp add: b(2))
    note lc = loop_complete[OF q2, of upl fl 1 "[]"]
    from lc have res: "fst (read_loop upl fl 1 [] s2) = Inr (completed (submitted ?lc))" by simp
    have fc: "faults s (length (trace s) + 3 + length ?lc) = None"
      using q by (simp add: b(2))
    from c res fc have tr: "trace s' = trace s @ [FileStat (fname fl), HeadObject bucketName ?key,
              CreateMultipartUpload bucketName ?key contentType] @ ?lc
              @ [CompleteMultipartUpload bucketName ?key (UploadId upl) (completed (submitted ?lc))]"
      and r: "r = Inr (objectUrl bucketName ?key)"
      by auto
    have nc: "new_calls s s' = ([FileStat (fname fl), HeadObject bucketName ?key,
              CreateMultipartUpload bucketName ?key contentType] @ ?lc)
              @ [CompleteMultipartUpload bucketName ?key (UploadId upl) (completed (submitted ?lc))]"
      unfolding new_calls_def tr by simp
    have l1: "last (new_calls s s') =
        CompleteMultipartUpload bucketName ?key (UploadId upl) (completed (submitted ?lc))"
      unfolding nc by simp
    have l2: "last (butlast (new_calls s s')) = FileRead (fname fl) (max (fpos fl) n)"
      unfolding nc butlast_snoc using lc by (simp add: n)
    from 1 lc l1 l2 r show ?thesis unfolding ps assms(6) n by simp
  qed
  from 1 2 3 4 show ?thesis by blast
qed

lemma complete_kind:
  "is_FileRead c \<or> is_UploadPart c \<or> c = abort_call upl \<Longrightarrow> \<not> is_Complete c"
  by (cases c) (auto simp: abort_call_def)

text \<open>
  Claim C5. Consider any run of \<open>uploadMultipart\<close> in which a call made by the
  run fails and that call is a part submission, or a read of the file failing
  with an error other than the end of the file. Then the run returns the error
  of that call; the call after it is the request to abort the multipart session
  that the run has started, and it is the last call of the run, so that whether
  the abort fails has no effect on the result; the store holds the objects it
  held before; and no request to complete the upload is made.
\<close>

theorem multipart_abort:
  assumes "uploadMultipart bucketName fl fileName contentType deviceID s = (r, s')"
      and "length (trace s) \<le> i" and "i < length (trace s')"
      and "faults s i = Some e"
      and "is_UploadPart (trace s' ! i) \<or> (is_FileRead (trace s' ! i) \<and> e \<noteq> EOF)"
  shows "r = Inl e \<and> length (trace s') = i + 2
       \<and> trace s' ! Suc i =
           AbortMultipartUpload bucketName (deviceID @ ''/'' @ fileName) (length (trace s) + 2)
       \<and> trace s' ! (length (trace s) + 2) =
           CreateMultipartUpload bucketName (deviceID @ ''/'' @ fileName) contentType
       \<and> objects s' = objects s
       \<and> filter is_Complete (new_calls s s') = []"
proof -
  let ?key = "deviceID @ ''/'' @ fileName"
  let ?L = "length (trace s)"
  from single_calls[OF assms(1) refl]
  consider (multi) n s0 s1 upl s2 where "file_Stat fl s = (Some n, s0)" "MIN_MULTIPART_SIZE \<le> n"
      "objectExists bucketName ?key s0 = (False, s1)"
      "svc_CreateMultipartUpload bucketName ?key contentType s1 = (Inr upl, s2)"
    | (single) evs where "trace s' = trace s @ evs" "quiet evs"
    by blast
  then show ?thesis
  proof cases
    case single
    from assms(2,3) single(1) have "i - ?L < length evs" "trace s' ! i = evs ! (i - ?L)"
      by (auto simp: nth_append)
    with single(2) assms(5) show ?thesis
      by (auto simp: quiet_def list_all_length)
  next
    case multi
    let ?lc = "loop_calls upl fl 1 [] s2"
    let ?pre = "[FileStat (fname fl), HeadObject bucketName ?key,
              CreateMultipartUpload bucketName ?key contentType]"
    note b = multipart_branch[OF refl multi]
    note c = multipart_calls[OF refl multi assms(1)]
    have kinds: "list_all (\<lambda>c. is_FileRead c \<or> is_UploadPart c \<or> c = abort_call upl) ?lc"
      by (rule loop_kinds)
    have ab: "abort_call upl = AbortMultipartUpload bucketName ?key (?L + 2)"
      by (simp add: abort_call_def b(3))
    from c obtain tl where tr: "trace s' = trace s @ ?pre @ ?lc @ tl"
      and tl: "tl = [] \<or> (\<exists>cps. tl = [CompleteMultipartUpload bucketName ?key (UploadId upl) cps])"
      by auto
    have i3: "?L + 3 \<le> i"
    proof (rule ccontr)
      assume "\<not> ?L + 3 \<le> i"
      with assms(2) have "i = ?L \<or> i = ?L + 1 \<or> i = ?L + 2" by arith
      with assms(5) show False unfolding tr by (auto simp: nth_append)
    qed
    define j where "j = i - (?L + 3)"
    have ij: "i = ?L + 3 + j" using i3 by (simp add: j_def)
    have jl: "j < length ?lc"
    proof (rule ccontr)
      assume "\<not> j < length ?lc"
      with assms(3) tl have "tl \<noteq> []" "i = ?L + 3 + length ?lc"
        unfolding tr ij by auto
      with tl assms(5) show False unfolding tr by (auto simp: nth_append)
    qed
    have at: "trace s' ! i = ?lc ! j"
      unfolding tr ij using jl by (simp add: nth_append)
    have "length (trace s2) + j = i" unfolding ij by (simp add: b(2))
    then have fj: "faults s2 (length (trace s2) + j) = Some e"
      using assms(4) by (simp add: b(2))
    from loop_abort[OF jl fj] assms(5) at
    have la: "fst (read_loop upl fl 1 [] s2) = Inl e" "length ?lc = j + 2" "?lc ! Suc j = abort_call upl"
      by simp_all
    from c la(1) have r: "r = Inl e" and tr': "trace s' = trace s @ ?pre @ ?lc"
      and ob: "objects s' = objects s"
      by auto
    have len: "length (trace s') = i + 2" unfolding tr' ij using la(2) by simp
    have nx: "trace s' ! Suc i = abort_call upl"
      unfolding tr' ij using la(2,3) by (simp add: nth_append)
    have cr: "trace s' ! (?L + 2) = CreateMultipartUpload bucketName ?key contentType"
      unfolding tr' by (simp add: nth_append)
    have "\<forall>c \<in> set ?lc. \<not> is_Complete c"
      using kinds complete_kind[of _ upl] unfolding list_all_iff by blast
    then have "filter is_Complete ?lc = []"
      by (simp add: filter_empty_conv)
    then have nc: "filter is_Complete (new_calls s s') = []"
      unfolding new_calls_def tr' by simp
    from r len nx cr ob nc ab show ?thesis by simp
  qed
qed

lemma big_chunk: "chunk big_file = replicate 500000000 (CHR ''z'')"
  by (simp add: chunk_def big_file_def PART_SIZE_def)

lemma big_stat:
  assumes "trace s = []" and "faults s 0 = None"
  shows "file_Stat big_file s = (Some 1000000000, s\<lparr>trace := [FileStat ''export.zip'']\<rparr>)"
  using assms by (simp add: file_Stat_def invoke_def big_file_def)

lemma big_exists:
  assumes "trace s = [FileStat ''export.zip'']" and "objects s (''pottery-log-exports'', ''dev1/export.zip'') = None"
  shows "objectExists ''pottery-log-exports'' (''dev1'' @ ''/'' @ ''export.zip'') s =
           (False, s\<lparr>trace := [FileStat ''export.zip'', HeadObject ''pottery-log-exports'' ''dev1/export.zip'']\<rparr>)"
  using assms by (simp add: objectExists_def svc_HeadObject_def invoke_def split: option.splits)

lemma big_create:
  assumes "trace s = [FileStat ''export.zip'', HeadObject ''pottery-log-exports'' ''dev1/export.zip'']"
      and "faults s 2 = None"
  shows "svc_CreateMultipartUpload ''pottery-log-exports'' (''dev1'' @ ''/'' @ ''export.zip'') ''application/zip'' s =
           (Inr big_upl, s\<lparr>trace := big_prelude\<rparr>)"
  using assms
  by (simp add: svc_CreateMultipartUpload_def invoke_def big_upl_def big_prelude_def numeral_2_eq_2)

lemma big_run_part_fails:
  "uploadMultipart ''pottery-log-exports'' big_file ''export.zip'' ''application/zip'' ''dev1'' world_part_fails =
     (Inl (AWSError ''RequestTimeout''),
      world_part_fails\<lparr>trace := big_prelude @
        [FileRead ''export.zip'' 0,
         UploadPart ''pottery-log-exports'' ''dev1/export.zip'' 2 1 (replicate 500000000 (CHR ''z'')),
         AbortMultipartUpload ''pottery-log-exports'' ''dev1/export.zip'' 2]\<rparr>)"
proof -
  let ?s0 = "world_part_fails\<lparr>trace := [FileStat ''export.zip'']\<rparr>"
  let ?s1 = "world_part_fails\<lparr>trace := [FileStat ''export.zip'', HeadObject ''pottery-log-exports'' ''dev1/export.zip'']\<rparr>"
  let ?s2 = "world_part_fails\<lparr>trace := big_prelude\<rparr>"
  have h1: "file_Stat big_file world_part_fails = (Some 1000000000, ?s0)"
    using big_stat[of world_part_fails] by (simp add: world_part_fails_def world0_def)
  have h2: "MIN_MULTIPART_SIZE \<le> 1000000000" by (simp add: MIN_MULTIPART_SIZE_def)
  have h3: "objectExists ''pottery-log-exports'' (''dev1'' @ ''/'' @ ''export.zip'') ?s0 = (False, ?s1)"
    using big_exists[of ?s0] by (simp add: world_part_fails_def world0_def)
  have h4: "svc_CreateMultipartUpload ''pottery-log-exports'' (''dev1'' @ ''/'' @ ''export.zip'') ''application/zip'' ?s1 =
           (Inr big_upl, ?s2)"
    using big_create[of ?s1] by (simp add: world_part_fails_def world0_def)
  have l: "read_loop big_upl big_file 1 [] ?s2 =
      (Inl (AWSError ''RequestTimeout''),
       ?s2\<lparr>trace := trace ?s2 @ [FileRead (fname big_file) (fpos big_file),
          part_call big_upl 1 (chunk big_file), abort_call big_upl]\<rparr>)"
    by (rule loop_part_fails) (simp_all add: big_prelude_def world_part_fails_def world0_def big_file_def)
  have nm: "fname big_file = ''export.zip''" "fpos big_file = 0"
    by (simp_all add: big_file_def)
  show ?thesis
    unfolding multipart_branch(1)[OF refl h1 h2 h3 h4] l
    by (simp add: big_chunk nm part_call_def abort_call_def big_upl_def)
qed

text \<open>
  Claim C4, as stated, fails: the parts 1 to \<open>k\<close> are not submitted in every
  run. For a file of one gigabyte \<open>k\<close> is 2; in a world where the request for the
  first part fails, part 1 is the only part submitted.
\<close>

theorem multipart_parts_counterexample:
  "fst (file_Stat big_file world_part_fails) = Some 1000000000 \<and>
   MIN_MULTIPART_SIZE \<le> 1000000000 \<and>
   objects world_part_fails (''pottery-log-exports'', ''dev1/export.zip'') = None \<and>
   ceil_div 1000000000 PART_SIZE = 2 \<and>
   map fst (parts_submitted world_part_fails
     (snd (uploadMultipart ''pottery-log-exports'' big_file ''export.zip'' ''application/zip'' ''dev1''
            world_part_fails))) = [1]"
  unfolding big_run_part_fails
  by (simp add: big_stat parts_submitted_def submitted_def big_prelude_def world_part_fails_def
      world0_def MIN_MULTIPART_SIZE_def ceil_div_def PART_SIZE_def)

theorem multipart_parts_witness:
  "fst (file_Stat big_file world0) = Some 1000000000 \<and>
   MIN_MULTIPART_SIZE \<le> 1000000000 \<and>
   \<not> fst (objectExists ''pottery-log-exports'' ''dev1/export.zip'' (snd (file_Stat big_file world0))) \<and>
   fst (uploadMultipart ''pottery-log-exports'' big_file ''export.zip'' ''application/zip'' ''dev1'' world0)
     = Inr ''https://pottery-log-exports.s3.amazonaws.com/dev1/export.zip'' \<and>
   map fst (parts_submitted world0
     (snd (uploadMultipart ''pottery-log-exports'' big_file ''export.zip'' ''application/zip'' ''dev1'' world0)))
     = [1, 2] \<and>
   concat (map snd (parts_submitted world0
     (snd (uploadMultipart ''pottery-log-exports'' big_file ''export.zip'' ''application/zip'' ''dev1'' world0))))
     = fdata big_file"
proof -
  let ?s0 = "world0\<lparr>trace := [FileStat ''export.zip'']\<rparr>"
  let ?s1 = "world0\<lparr>trace := [FileStat ''export.zip'', HeadObject ''pottery-log-exports'' ''dev1/export.zip'']\<rparr>"
  let ?s2 = "world0\<lparr>trace := big_prelude\<rparr>"
  have h1: "file_Stat big_file world0 = (Some 1000000000, ?s0)"
    using big_stat[of world0] by (simp add: world0_def)
  have h2: "MIN_MULTIPART_SIZE \<le> 1000000000" by (simp add: MIN_MULTIPART_SIZE_def)
  have h3: "objectExists ''pottery-log-exports'' (''dev1'' @ ''/'' @ ''export.zip'') ?s0 = (False, ?s1)"
    using big_exists[of ?s0] by (simp add: world0_def)
  have h4: "svc_CreateMultipartUpload ''pottery-log-exports'' (''dev1'' @ ''/'' @ ''export.zip'') ''application/zip'' ?s1 =
           (Inr big_upl, ?s2)"
    using big_create[of ?s1] by (simp add: world0_def)
  obtain r s' where run: "uploadMultipart ''pottery-log-exports'' big_file ''export.zip'' ''application/zip'' ''dev1'' world0 = (r, s')"
    by (cases "uploadMultipart ''pottery-log-exports'' big_file ''export.zip'' ''application/zip'' ''dev1'' world0") auto
  have nf: "\<forall>i \<ge> length (trace ?s2). faults world0 i = None" by (simp add: world0_def)
  have k: "ceil_div (1000000000 - fpos big_file) PART_SIZE = 2"
    by (simp add: ceil_div_def PART_SIZE_def big_file_def)
  have u: "[1 ..< Suc 2] = [1, 2::nat]" by (simp add: upt_rec)
  from multipart_parts[OF h1 h2 h3 h4 run refl] nf
  have "map fst (parts_submitted world0 s') = [1 ..< Suc (ceil_div (1000000000 - fpos big_file) PART_SIZE)]
        \<and> concat (map snd (parts_submitted world0 s')) = drop (fpos big_file) (fdata big_file)
        \<and> r = Inr (objectUrl ''pottery-log-exports'' (''dev1'' @ ''/'' @ ''export.zip''))"
    by blast
  then have c: "map fst (parts_submitted world0 s') = [1, 2]
        \<and> concat (map snd (parts_submitted world0 s')) = fdata big_file
        \<and> r = Inr ''https://pottery-log-exports.s3.amazonaws.com/dev1/export.zip''"
    unfolding k u by (simp add: objectUrl_def big_file_def)
  have e: "\<not> fst (objectExists ''pottery-log-exports'' ''dev1/export.zip'' ?s0)"
    using h3 by simp
  from c e h2 show ?thesis unfolding run h1 by simp
qed

theorem multipart_abort_witness:
  "faults world_part_fails 4 = Some (AWSError ''RequestTimeout'') \<and>
   faults world_part_fails 5 = Some (AWSError ''InternalError'') \<and>
   is_UploadPart (trace (snd (uploadMultipart ''pottery-log-exports'' big_file ''export.zip''
      ''application/zip'' ''dev1'' world_part_fails)) ! 4) \<and>
   fst (uploadMultipart ''pottery-log-exports'' big_file ''export.zip'' ''application/zip'' ''dev1''
      world_part_fails) = Inl (AWSError ''RequestTimeout'') \<and>
   length (trace (snd (uploadMultipart ''pottery-log-exports'' big_file ''export.zip''
      ''application/zip'' ''dev1'' world_part_fails))) = 6 \<and>
   trace (snd (uploadMultipart ''pottery-log-exports'' big_file ''export.zip''
      ''application/zip'' ''dev1'' world_part_fails)) ! 5 =
     AbortMultipartUpload ''pottery-log-exports'' ''dev1/export.zip'' 2 \<and>
   objects (snd (uploadMultipart ''pottery-log-exports'' big_file ''export.zip''
      ''application/zip'' ''dev1'' world_part_fails)) = objects world_part_fails"
proof -
  obtain r s' where run: "uploadMultipart ''pottery-log-exports'' big_file ''export.zip''
      ''application/zip'' ''dev1'' world_part_fails = (r, s')"
    by (cases "uploadMultipart ''pottery-log-exports'' big_file ''export.zip''
      ''application/zip'' ''dev1'' world_part_fails") auto
  with big_run_part_fails have tr: "trace s' = big_prelude @
        [FileRead ''export.zip'' 0,
         UploadPart ''pottery-log-exports'' ''dev1/export.zip'' 2 1 (replicate 500000000 (CHR ''z'')),
         AbortMultipartUpload ''pottery-log-exports'' ''dev1/export.zip'' 2]"
    by simp
  have a2: "length (trace world_part_fails) \<le> 4" by (simp add: world_part_fails_def world0_def)
  have a3: "4 < length (trace s')" unfolding tr by (simp add: big_prelude_def)
  have a4: "faults world_part_fails 4 = Some (AWSError ''RequestTimeout'')"
    by (simp add: world_part_fails_def)
  have f5: "faults world_part_fails 5 = Some (AWSError ''InternalError'')"
    by (simp add: world_part_fails_def)
  have up: "is_UploadPart (trace s' ! 4)" unfolding tr by (simp add: big_prelude_def)
  then have a5: "is_UploadPart (trace s' ! 4) \<or> (is_FileRead (trace s' ! 4) \<and> AWSError ''RequestTimeout'' \<noteq> EOF)"
    by simp
  have l0: "length (trace world_part_fails) = 0" by (simp add: world_part_fails_def world0_def)
  from multipart_abort[OF run a2 a3 a4 a5]
  have "r = Inl (AWSError ''RequestTimeout'') \<and> length (trace s') = 6
        \<and> trace s' ! 5 = AbortMultipartUpload ''pottery-log-exports'' ''dev1/export.zip'' 2
        \<and> objects s' = objects world_part_fails"
    unfolding l0 by (simp add: eval_nat_numeral)
  with a4 f5 up show ?thesis unfolding run by simp
qed

section \<open>Importing an archive\<close>

lemma uploadFile_Inr:
  "uploadFile bucketName src fileName contentType deviceID s = (Inr uri, s1) \<Longrightarrow>
   uri = objectUrl bucketName (deviceID @ ''/'' @ fileName)"
  by (cases src)
     (auto simp: uploadFile_def Let_def split: prod.splits bool.splits sum.splits option.splits if_splits)

lemma uploadImportedImage_Inr:
  "uploadImportedImage zf deviceID s = (Inr uri, s1) \<Longrightarrow>
   uri = objectUrl importBucketName (deviceID @ ''/'' @ Name (header zf))"
  by (auto simp: uploadImportedImage_def split: sum.splits dest: uploadFile_Inr)

lemma Import_range_no_metadata:
  assumes "list_all (\<lambda>zf. Name (header zf) \<noteq> metadataFileName) r"
      and "Import_range r deviceID imageMap metadata s = (Inr (imageMap', metadata'), s1)"
  shows "metadata' = metadata \<and>
         (\<forall>zf \<in> set r. imageMap' (Name (header zf)) =
             Some (objectUrl importBucketName (deviceID @ ''/'' @ Name (header zf)))) \<and>
         (\<forall>n. n \<notin> (\<lambda>zf. Name (header zf)) ` set r \<longrightarrow> imageMap' n = imageMap n)"
  using assms
proof (induction r arbitrary: imageMap s)
  case Nil
  then show ?case by simp
next
  case (Cons zf r)
  from Cons.prems(1) have nm: "Name (header zf) \<noteq> metadataFileName"
    and rest: "list_all (\<lambda>zf. Name (header zf) \<noteq> metadataFileName) r" by simp_all
  from Cons.prems(2) nm obtain uri s0 where
    up: "uploadImportedImage zf deviceID s = (Inr uri, s0)" and
    rec: "Import_range r deviceID (imageMap(Name (header zf) := Some uri)) metadata s0 =
            (Inr (imageMap', metadata'), s1)"
    by (auto split: prod.splits sum.splits)
  note u = uploadImportedImage_Inr[OF up]
  note ih = Cons.IH[OF rest rec]
  show ?case
  proof (intro conjI ballI allI impI)
    show "metadata' = metadata" using ih by simp
  next
    fix x assume x: "x \<in> set (zf # r)"
    show "imageMap' (Name (header x)) =
             Some (objectUrl importBucketName (deviceID @ ''/'' @ Name (header x)))"
    proof (cases "x \<in> set r")
      case True
      with ih show ?thesis by simp
    next
      case False
      with x have xz: "x = zf" by simp
      show ?thesis
      proof (cases "Name (header zf) \<in> (\<lambda>zf. Name (header zf)) ` set r")
        case True
        then obtain y where "y \<in> set r" "Name (header y) = Name (header zf)" by auto
        with ih xz show ?thesis by metis
      next
        case False
        with ih have "imageMap' (Name (header zf)) = (imageMap(Name (header zf) := Some uri)) (Name (header zf))"
          by blast
        with u xz show ?thesis by simp
      qed
    qed
  next
    fix n assume n: "n \<notin> (\<lambda>zf. Name (header zf)) ` set (zf # r)"
    then have "n \<notin> (\<lambda>zf. Name (header zf)) ` set r" "n \<noteq> Name (header zf)" by auto
    with ih show "imageMap' n = imageMap n" by simp
  qed
qed

text \<open>
  Claim C6. Let no entry of the archive be named \<open>metadata.json\<close>. Then \<open>Import\<close>
  never answers with success, whatever fails. And when the loop over the
  entries runs to its end, every entry having been uploaded with success, so
  that the map holds the address of every entry, \<open>Import\<close> still answers with the
  error \<open>No metadata.json found in the zip file\<close>: the map is not returned.
\<close>

theorem Import_no_metadata:
  assumes "list_all (\<lambda>zf. Name (header zf) \<noteq> metadataFileName) r"
  shows "(\<exists>err. fst (Import r deviceID s) = Inl err) \<and>
         (\<forall>imageMap metadata s1.
            Import_range r deviceID (\<lambda>_. None) None s = (Inr (imageMap, metadata), s1) \<longrightarrow>
              Import r deviceID s = (Inl ValidationError_no_metadata, s1) \<and>
              (\<forall>zf \<in> set r. imageMap (Name (header zf)) =
                 Some (objectUrl importBucketName (deviceID @ ''/'' @ Name (header zf)))))"
proof -
  have 2: "Import r deviceID s = (Inl ValidationError_no_metadata, s1) \<and>
              (\<forall>zf \<in> set r. imageMap (Name (header zf)) =
                 Some (objectUrl importBucketName (deviceID @ ''/'' @ Name (header zf))))"
    if run: "Import_range r deviceID (\<lambda>_. None) None s = (Inr (imageMap, metadata), s1)"
    for imageMap metadata s1
  proof -
    from Import_range_no_metadata[OF assms run] have "metadata = None"
      and m: "\<forall>zf \<in> set r. imageMap (Name (header zf)) =
                 Some (objectUrl importBucketName (deviceID @ ''/'' @ Name (header zf)))"
      by simp_all
    with run show ?thesis
      by (simp add: Import_def ValidationError_no_metadata_def metadataFileName_def)
  qed
  have 1: "\<exists>err. fst (Import r deviceID s) = Inl err"
  proof (cases "Import_range r deviceID (\<lambda>_. None) None s")
    case (Pair res s1)
    show ?thesis
    proof (cases res)
      case (Inl err)
      with Pair show ?thesis by (simp add: Import_def)
    next
      case (Inr m)
      with Pair 2[of "fst m" "snd m" s1] show ?thesis by simp
    qed
  qed
  from 1 2 show ?thesis by blast
qed

theorem Import_no_metadata_witness:
  "list_all (\<lambda>zf. Name (header zf) \<noteq> metadataFileName) [zip_a, zip_b] \<and>
   (\<exists>imageMap s1. Import_range [zip_a, zip_b] ''dev1'' (\<lambda>_. None) None world0 = (Inr (imageMap, None), s1) \<and>
      imageMap ''a.png'' = Some ''https://pottery-log-exports.s3.amazonaws.com/dev1/a.png'' \<and>
      imageMap ''b.png'' = Some ''https://pottery-log-exports.s3.amazonaws.com/dev1/b.png'') \<and>
   fst (Import [zip_a, zip_b] ''dev1'' world0) = Inl (New ''No metadata.json found in the zip file'') \<and>
   trace (snd (Import [zip_a, zip_b] ''dev1'' world0)) =
     [HeadObject ''pottery-log-exports'' ''dev1/a.png'',
      PutObject ''pottery-log-exports'' ''dev1/a.png'' ''image/png'' ''AAAA'',
      HeadObject ''pottery-log-exports'' ''dev1/b.png'',
      PutObject ''pottery-log-exports'' ''dev1/b.png'' ''image/png'' ''BB'']"
proof -
  have h: "list_all (\<lambda>zf. Name (header zf) \<noteq> metadataFileName) [zip_a, zip_b]"
    by (simp add: zip_a_def zip_b_def metadataFileName_def)
  obtain res s1 where run: "Import_range [zip_a, zip_b] ''dev1'' (\<lambda>_. None) None world0 = (res, s1)"
    by (cases "Import_range [zip_a, zip_b] ''dev1'' (\<lambda>_. None) None world0") auto
  have tr: "trace s1 =
     [HeadObject ''pottery-log-exports'' ''dev1/a.png'',
      PutObject ''pottery-log-exports'' ''dev1/a.png'' ''image/png'' ''AAAA'',
      HeadObject ''pottery-log-exports'' ''dev1/b.png'',
      PutObject ''pottery-log-exports'' ''dev1/b.png'' ''image/png'' ''BB'']"
    and ok: "\<exists>imageMap. res = Inr (imageMap, None)"
    using run
    by (auto simp: zip_a_def zip_b_def uploadImportedImage_def s3_defs importBucketName_def
        metadataFileName_def world0_def)
  then obtain imageMap where res: "res = Inr (imageMap, None)" by blast
  from Import_no_metadata[OF h, of "''dev1''" world0] run res
  have i: "Import [zip_a, zip_b] ''dev1'' world0 = (Inl ValidationError_no_metadata, s1)"
    and m: "\<forall>zf \<in> set [zip_a, zip_b]. imageMap (Name (header zf)) =
                 Some (objectUrl importBucketName (''dev1'' @ ''/'' @ Name (header zf)))"
    by blast+
  from m have m2: "imageMap ''a.png'' = Some ''https://pottery-log-exports.s3.amazonaws.com/dev1/a.png''"
      "imageMap ''b.png'' = Some ''https://pottery-log-exports.s3.amazonaws.com/dev1/b.png''"
    by (simp_all add: zip_a_def zip_b_def objectUrl_def importBucketName_def)
  from h run res m2 i tr show ?thesis
    by (simp add: ValidationError_no_metadata_def)
qed

section \<open>Deleting an image\<close>

lemma occurs_at_Nil: "sep \<noteq> [] \<Longrightarrow> \<not> occurs_at sep [] i"
  by (auto simp: occurs_at_def)

lemma occurs_at_Suc: "occurs_at sep (c # cs) (Suc i) = occurs_at sep cs i"
  by (simp add: occurs_at_def)

lemma occurs_at_0: "occurs_at sep s 0 = HasPrefix s sep"
  by (simp add: occurs_at_def HasPrefix_def)

lemma occurs_at_bound: "sep \<noteq> [] \<Longrightarrow> occurs_at sep s i \<Longrightarrow> i + length sep \<le> length s"
proof -
  assume a: "sep \<noteq> []" "occurs_at sep s i"
  then have "length (take (length sep) (drop i s)) = length sep" by (simp add: occurs_at_def)
  then have "length sep \<le> length s - i" by simp
  moreover from a have "i < length s" by (cases "i < length s") (auto simp: occurs_at_def)
  ultimately show ?thesis by arith
qed

lemma Index_None:
  assumes "sep \<noteq> []"
  shows "(strings_Index s sep = None) = (\<forall>i. \<not> occurs_at sep s i)"
proof (induction s)
  case Nil
  with assms show ?case by (simp add: occurs_at_Nil)
next
  case (Cons c cs)
  show ?case
  proof (cases "HasPrefix (c # cs) sep")
    case True
    then have "occurs_at sep (c # cs) 0" by (simp add: occurs_at_0)
    with True show ?thesis by auto
  next
    case False
    then have n0: "\<not> occurs_at sep (c # cs) 0" by (simp add: occurs_at_0)
    have "(\<forall>i. \<not> occurs_at sep (c # cs) i) = (\<forall>i. \<not> occurs_at sep cs i)"
    proof
      assume "\<forall>i. \<not> occurs_at sep (c # cs) i"
      then show "\<forall>i. \<not> occurs_at sep cs i" using occurs_at_Suc[of sep c cs] by blast
    next
      assume a: "\<forall>i. \<not> occurs_at sep cs i"
      show "\<forall>i. \<not> occurs_at sep (c # cs) i"
      proof
        fix i show "\<not> occurs_at sep (c # cs) i"
          using n0 a by (cases i) (simp_all add: occurs_at_Suc)
      qed
    qed
    with False Cons.IH show ?thesis by simp
  qed
qed

lemma Index_Some:
  assumes "sep \<noteq> []" and "strings_Index s sep = Some m"
  shows "occurs_at sep s m \<and> (\<forall>i<m. \<not> occurs_at sep s i)"
  using assms(2)
proof (induction s arbitrary: m)
  case Nil
  with assms(1) show ?case by simp
next
  case (Cons c cs)
  show ?case
  proof (cases "HasPrefix (c # cs) sep")
    case True
    with Cons.prems have "m = 0" by simp
    with True show ?thesis by (simp add: occurs_at_0)
  next
    case False
    with Cons.prems obtain k where k: "strings_Index cs sep = Some k" "m = Suc k" by auto
    from False have n0: "\<not> occurs_at sep (c # cs) 0" by (simp add: occurs_at_0)
    from Cons.IH[OF k(1)] have ih: "occurs_at sep cs k" "\<forall>i<k. \<not> occurs_at sep cs i" by simp_all
    have "\<not> occurs_at sep (c # cs) i" if "i < m" for i
      using that n0 ih(2) k(2) by (cases i) (simp_all add: occurs_at_Suc)
    with ih(1) k(2) show ?thesis by (simp add: occurs_at_Suc)
  qed
qed

lemma Split_None: "sep \<noteq> [] \<Longrightarrow> strings_Index s sep = None \<Longrightarrow> strings_Split s sep = [s]"
  by (subst strings_Split.simps) simp

lemma Split_Some:
  "sep \<noteq> [] \<Longrightarrow> strings_Index s sep = Some m \<Longrightarrow>
   strings_Split s sep = take m s # strings_Split (drop (m + length sep) s) sep"
  by (subst strings_Split.simps) simp

lemma Split_not_Nil: "sep \<noteq> [] \<Longrightarrow> strings_Split s sep \<noteq> []"
  by (cases "strings_Index s sep") (simp_all add: Split_None Split_Some)

lemma Split_single: "sep \<noteq> [] \<Longrightarrow> (length (strings_Split s sep) = 1) = (strings_Index s sep = None)"
proof (cases "strings_Index s sep")
  case None
  assume "sep \<noteq> []"
  with None show ?thesis by (simp add: Split_None)
next
  case (Some m)
  assume s: "sep \<noteq> []"
  from Split_not_Nil[OF s, of "drop (m + length sep) s"]
  have "length (strings_Split (drop (m + length sep) s) sep) \<noteq> 0" by simp
  with Some s show ?thesis by (simp add: Split_Some)
qed

lemma Split_two:
  assumes "sep \<noteq> []"
  shows "(length (strings_Split s sep) = 2) =
         (\<exists>m. strings_Index s sep = Some m \<and> strings_Index (drop (m + length sep) s) sep = None)"
proof (cases "strings_Index s sep")
  case None
  with assms show ?thesis by (simp add: Split_None)
next
  case (Some m)
  with assms Split_single[OF assms, of "drop (m + length sep) s"] show ?thesis
    by (simp add: Split_Some)
qed

lemma occurs_split:
  assumes "occurs_at sep s m"
  shows "s = take m s @ sep @ drop (m + length sep) s"
proof -
  have "drop m s = take (length sep) (drop m s) @ drop (length sep) (drop m s)"
    by (rule append_take_drop_id[symmetric])
  also have "\<dots> = sep @ drop (m + length sep) s"
    using assms by (simp add: occurs_at_def add.commute)
  finally have "take m s @ drop m s = take m s @ sep @ drop (m + length sep) s" by simp
  then show ?thesis by simp
qed

lemma occurs_in_rest:
  "occurs_at sep (drop k s) j = occurs_at sep s (k + j)"
  by (simp add: occurs_at_def add.commute)

lemma marker_no_border:
  "list_all (\<lambda>d. drop d marker \<noteq> take (length marker - d) marker) [1 ..< length marker]"
  by (simp add: marker_def upt_rec)

lemma marker_no_overlap:
  assumes "occurs_at marker s m" and "occurs_at marker s (m + d)" and "0 < d" and "d < length marker"
  shows False
proof -
  let ?L = "length marker"
  have "drop d marker = drop d (take ?L (drop m s))" using assms(1) by (simp add: occurs_at_def)
  also have "\<dots> = take (?L - d) (drop (m + d) s)" by (simp add: drop_take add.commute)
  also have "\<dots> = take (?L - d) (take ?L (drop (m + d) s))" by (simp add: min_def)
  also have "\<dots> = take (?L - d) marker" using assms(2) by (simp add: occurs_at_def)
  finally have "drop d marker = take (?L - d) marker" .
  moreover from assms(3,4) have "d \<in> set [1 ..< ?L]" by simp
  ultimately show False using marker_no_border unfolding list_all_iff by blast
qed

lemma marker_ne: "marker \<noteq> []"
  by (simp add: marker_def)

lemma accepted_unique:
  assumes "length (strings_Split uri marker) = 2"
  shows "\<exists>m. strings_Split uri marker = [take m uri, drop (m + length marker) uri]
             \<and> occurs_at marker uri m \<and> (\<forall>i. occurs_at marker uri i \<longrightarrow> i = m)"
proof -
  from assms Split_two[OF marker_ne] obtain m where
    m: "strings_Index uri marker = Some m" and
    r: "strings_Index (drop (m + length marker) uri) marker = None"
    by blast
  from Index_Some[OF marker_ne m] have o: "occurs_at marker uri m"
    and f: "\<forall>i<m. \<not> occurs_at marker uri i" by simp_all
  from r Index_None[OF marker_ne] have nr: "\<forall>j. \<not> occurs_at marker uri (m + length marker + j)"
    by (simp add: occurs_in_rest)
  have u: "i = m" if i: "occurs_at marker uri i" for i
  proof (rule ccontr)
    assume ne: "i \<noteq> m"
    with f i have gt: "m < i" by (metis nat_neq_iff)
    show False
    proof (cases "i < m + length marker")
      case True
      from gt i have occ: "occurs_at marker uri (m + (i - m))" by simp
      from gt have d0: "0 < i - m" by arith
      from gt True have d1: "i - m < length marker" by arith
      from marker_no_overlap[OF o occ d0 d1] show False .
    next
      case False
      then have "i = m + length marker + (i - (m + length marker))" by simp
      with nr i show False by metis
    qed
  qed
  have "strings_Split uri marker = [take m uri, drop (m + length marker) uri]"
    by (simp add: Split_Some[OF marker_ne m] Split_None[OF marker_ne r])
  with o u show ?thesis by blast
qed

lemma unique_accepted:
  assumes "occurs_at marker uri m" and "\<forall>i. occurs_at marker uri i \<longrightarrow> i = m"
  shows "length (strings_Split uri marker) = 2"
proof -
  from assms(1) Index_None[OF marker_ne, of uri] obtain k where k: "strings_Index uri marker = Some k"
    by (cases "strings_Index uri marker") auto
  from Index_Some[OF marker_ne k] assms(2) have km: "k = m" by blast
  have "strings_Index (drop (m + length marker) uri) marker = None"
  proof (rule ccontr)
    assume "strings_Index (drop (m + length marker) uri) marker \<noteq> None"
    then obtain j where "strings_Index (drop (m + length marker) uri) marker = Some j" by auto
    from Index_Some[OF marker_ne this] have "occurs_at marker uri (m + length marker + j)"
      by (simp add: occurs_in_rest)
    with assms(2) have "m + length marker + j = m" by blast
    with marker_ne show False by simp
  qed
  with k km Split_two[OF marker_ne, of uri] show ?thesis by blast
qed

lemma occurs_at_less:
  assumes "occurs_at marker uri i"
  shows "i < length uri"
proof -
  have "0 < length marker" using marker_ne by simp
  with occurs_at_bound[OF marker_ne assms] show ?thesis by arith
qed

lemma filter_eq_upt_if: "filter (\<lambda>i. i = m) [0 ..< n] = (if m < n then [m] else [])"
  by (induction n) auto

lemma filter_eq_upt: "m < n \<Longrightarrow> filter (\<lambda>i. i = m) [0 ..< n] = [m]"
  by (simp add: filter_eq_upt_if)

lemma occurrences_one:
  "(length (occurrences marker uri) = 1) =
   (\<exists>m. occurs_at marker uri m \<and> (\<forall>i. occurs_at marker uri i \<longrightarrow> i = m))"
proof
  assume "length (occurrences marker uri) = 1"
  then obtain m where m: "occurrences marker uri = [m]"
    by (cases "occurrences marker uri") auto
  then have "m \<in> set (occurrences marker uri)" by simp
  then have o: "occurs_at marker uri m" by (simp add: occurrences_def)
  have "i = m" if i: "occurs_at marker uri i" for i
  proof -
    from occurs_at_less[OF i] i have "i \<in> set (occurrences marker uri)"
      by (simp add: occurrences_def)
    with m show ?thesis by simp
  qed
  with o show "\<exists>m. occurs_at marker uri m \<and> (\<forall>i. occurs_at marker uri i \<longrightarrow> i = m)" by blast
next
  assume "\<exists>m. occurs_at marker uri m \<and> (\<forall>i. occurs_at marker uri i \<longrightarrow> i = m)"
  then obtain m where o: "occurs_at marker uri m" and u: "\<forall>i. occurs_at marker uri i \<longrightarrow> i = m"
    by blast
  have "occurs_at marker uri i = (i = m)" for i using o u by blast
  then have e: "occurs_at marker uri = (\<lambda>i. i = m)" by (intro ext)
  have "occurrences marker uri = [m]"
    unfolding occurrences_def e by (rule filter_eq_upt[OF occurs_at_less[OF o]])
  then show "length (occurrences marker uri) = 1" by simp
qed

lemma Split_Nil: "strings_Split [] marker = [[]]"
  using marker_ne by (intro Split_None) simp_all

lemma Delete_accepted:
  assumes "strings_Split uri marker = [a, b]"
  shows "trace (snd (Delete uri s)) = trace s @ [DeleteObject imageBucketName b]
         \<and> fst (Delete uri s) =
             (case faults s (length (trace s)) of None \<Rightarrow> Inr okResponse | Some err \<Rightarrow> Inl err)"
proof -
  have "uri \<noteq> []"
  proof
    assume "uri = []"
    then have "strings_Split uri marker = [[]]"
      by (simp add: Split_Nil)
    with assms show False by simp
  qed
  with assms show ?thesis
    by (simp add: Delete_def deleteImage_def svc_DeleteObject_def invoke_def Let_def
        split: option.splits)
qed

lemma Delete_rejected:
  assumes "uri = [] \<or> length (strings_Split uri marker) \<noteq> 2"
  shows "snd (Delete uri s) = s \<and> (\<exists>err. fst (Delete uri s) = Inl err)"
  using assms by (auto simp: Delete_def Let_def)

text \<open>
  Claim C10. \<open>Delete\<close> accepts an address (it is not empty and splits at the
  marker \<open>s3.amazonaws.com/\<close> into exactly two parts) exactly when the marker
  occurs in it exactly once. For an accepted address, which is then some \<open>a\<close>,
  the marker and some \<open>b\<close>, the one call made is the request to delete the key
  \<open>b\<close>, unchanged, from the image bucket \<open>pottery-log\<close>, whatever bucket or host
  \<open>a\<close> names; the answer is the error of that request if it fails and the ok
  response otherwise. Any other address is answered with an error and no call
  is made.
\<close>

theorem Delete_key:
  "((uri \<noteq> [] \<and> length (strings_Split uri marker) = 2) = (length (occurrences marker uri) = 1))
   \<and> (length (occurrences marker uri) = 1 \<longrightarrow>
        (\<exists>a b. uri = a @ marker @ b \<and> strings_Split uri marker = [a, b]
           \<and> trace (snd (Delete uri s)) = trace s @ [DeleteObject imageBucketName b]
           \<and> fst (Delete uri s) =
               (case faults s (length (trace s)) of None \<Rightarrow> Inr okResponse | Some err \<Rightarrow> Inl err)))
   \<and> (length (occurrences marker uri) \<noteq> 1 \<longrightarrow>
        snd (Delete uri s) = s \<and> (\<exists>err. fst (Delete uri s) = Inl err))"
proof -
  have ne: "uri \<noteq> []" if "length (strings_Split uri marker) = 2"
  proof
    assume "uri = []"
    then have "strings_Split uri marker = [[]]" by (simp add: Split_Nil)
    with that show False by simp
  qed
  have eq: "(uri \<noteq> [] \<and> length (strings_Split uri marker) = 2) = (length (occurrences marker uri) = 1)"
  proof
    assume "uri \<noteq> [] \<and> length (strings_Split uri marker) = 2"
    with accepted_unique[of uri] show "length (occurrences marker uri) = 1"
      unfolding occurrences_one by blast
  next
    assume "length (occurrences marker uri) = 1"
    then obtain m where "occurs_at marker uri m" "\<forall>i. occurs_at marker uri i \<longrightarrow> i = m"
      unfolding occurrences_one by blast
    from unique_accepted[OF this] ne show "uri \<noteq> [] \<and> length (strings_Split uri marker) = 2"
      by simp
  qed
  have acc: "\<exists>a b. uri = a @ marker @ b \<and> strings_Split uri marker = [a, b]
           \<and> trace (snd (Delete uri s)) = trace s @ [DeleteObject imageBucketName b]
           \<and> fst (Delete uri s) =
               (case faults s (length (trace s)) of None \<Rightarrow> Inr okResponse | Some err \<Rightarrow> Inl err)"
    if "length (occurrences marker uri) = 1"
  proof -
    from that eq have "length (strings_Split uri marker) = 2" by simp
    from accepted_unique[OF this] obtain m where
      sp: "strings_Split uri marker = [take m uri, drop (m + length marker) uri]"
      and o: "occurs_at marker uri m" by blast
    from occurs_split[OF o] Delete_accepted[OF sp] sp show ?thesis by blast
  qed
  have rej: "snd (Delete uri s) = s \<and> (\<exists>err. fst (Delete uri s) = Inl err)"
    if "length (occurrences marker uri) \<noteq> 1"
  proof -
    from that eq have "uri = [] \<or> length (strings_Split uri marker) \<noteq> 2" by blast
    then show ?thesis by (rule Delete_rejected)
  qed
  from eq acc rej show ?thesis by blast
qed

theorem Delete_key_witness:
  "length (occurrences marker export_uri) = 1 \<and>
   export_uri = ''https://pottery-log-exports.'' @ marker @ ''dev1/export.zip'' \<and>
   trace (snd (Delete export_uri world0)) = [DeleteObject ''pottery-log'' ''dev1/export.zip''] \<and>
   fst (Delete export_uri world0) = Inr okResponse"
proof -
  have sp: "strings_Split export_uri marker = [''https://pottery-log-exports.'', ''dev1/export.zip'']"
    by (simp add: strings_Split.simps HasPrefix_def marker_def export_uri_def)
  then have l2: "export_uri \<noteq> [] \<and> length (strings_Split export_uri marker) = 2"
    by (simp add: export_uri_def)
  note t = Delete_key[of export_uri world0]
  from t l2 have h: "length (occurrences marker export_uri) = 1" by blast
  with t obtain a b where ab: "strings_Split export_uri marker = [a, b]"
    "trace (snd (Delete export_uri world0)) = trace world0 @ [DeleteObject imageBucketName b]"
    "fst (Delete export_uri world0) =
       (case faults world0 (length (trace world0)) of None \<Rightarrow> Inr okResponse | Some err \<Rightarrow> Inl err)"
    by blast
  from ab(1) sp have b: "b = ''dev1/export.zip''" by simp
  have e: "export_uri = ''https://pottery-log-exports.'' @ marker @ ''dev1/export.zip''"
    by (simp add: export_uri_def marker_def)
  from h e ab(2,3) b show ?thesis
    by (simp add: world0_def imageBucketName_def)
qed

end
